theory Spec2Isabelle
  imports
    Main
    "HOL-Library.Char_ord"
    "HOL-Library.List_Lexorder"
    "HOL-Library.Sublist"
    "HOL-Library.Multiset"
    "HOL-Library.Finite_Map"
begin

section \<open>The migration module of kysely (src/migration/migration.ts)\<close>

text \<open>
  The module runs the pending migrations of a database: it creates its two tracking
  tables on demand, takes a lock stored in a row, checks the recorded history against
  the migrations it is given and runs the new ones in name order, all inside one
  transaction.

  Everything outside \<^verbatim>\<open>migration.ts\<close> is reached through the handle
  \<^verbatim>\<open>db: Kysely<any>\<close>. The handle is a record of operations on a world
  \<open>'w\<close>; each operation returns its result, or the error it throws, together with
  the world it leaves.
\<close>

subsection \<open>Names, errors and the database handle\<close>

text \<open>
  A migration name is a JavaScript string. \<open>Array.prototype.sort\<close> without a
  comparator orders strings by their code units, which is the lexicographic order
  of \<open>HOL-Library.List_Lexorder\<close> over the order of characters of
  \<open>HOL-Library.Char_ord\<close>; a \<open>char\<close> stands for one code unit.
\<close>

type_synonym name = string

definition MIGRATION_TABLE :: string where
  "MIGRATION_TABLE = ''kysely_migration''"

definition MIGRATION_LOCK_TABLE :: string where
  "MIGRATION_LOCK_TABLE = ''kysely_migration_lock''"

definition MIGRATION_LOCK_ID :: string where
  "MIGRATION_LOCK_ID = ''migration_lock''"

text \<open>
  What can be thrown. \<open>Error msg\<close> is \<^verbatim>\<open>new Error(msg)\<close>, the only error
  \<^verbatim>\<open>migration.ts\<close> creates itself. \<open>TypeError msg\<close> is what the language throws
  when a value that is not a function is called. \<open>NoSuchTable\<close>, \<open>DuplicateKey\<close> and
  \<open>Unsupported\<close> are the failures of the reference query layer below; \<open>Thrown x\<close>
  is any other value thrown by a migration, by the query layer or by the host.
\<close>

datatype 'x error =
    Error string
  | TypeError string
  | NoSuchTable string
  | DuplicateKey string string
  | Unsupported string
  | Thrown 'x

text \<open>The columns passed to the table builder.\<close>

datatype column =
    StringColumn string bool
  | IntegerColumn string bool "int option"

type_synonym lock_row = "string \<times> int"

text \<open>
  The handle. Each field stands for one query that \<^verbatim>\<open>migration.ts\<close> builds:
  \<^item> \<open>getTableMetadata t\<close>: \<^verbatim>\<open>db.getTableMetadata(t)\<close>, the metadata or undefined;
  \<^item> \<open>createTable t cols\<close>:
    \<^verbatim>\<open>db.schema.createTable(t).ifNotExists().<cols>.execute()\<close>;
  \<^item> \<open>selectLockRow i\<close>:
    \<^verbatim>\<open>db.selectFrom(MIGRATION_LOCK_TABLE).where('id', '=', i).executeTakeFirst()\<close>;
  \<^item> \<open>insertLockRow i\<close>:
    \<^verbatim>\<open>db.insertInto(MIGRATION_LOCK_TABLE).values({ id: i }).execute()\<close>;
  \<^item> \<open>updateLock v c i\<close>:
    \<^verbatim>\<open>db.updateTable(MIGRATION_LOCK_TABLE).set({ is_locked: v })\<close>, with
    \<^verbatim>\<open>.where('is_locked', '=', c')\<close> when \<open>c = Some c'\<close>, then
    \<^verbatim>\<open>.where('id', '=', i)\<close>; the result is the number of updated rows;
  \<^item> \<open>selectExecuted\<close>:
    \<^verbatim>\<open>db.selectFrom(MIGRATION_TABLE).select('name').orderBy('name').execute()\<close>,
    the names of the rows;
  \<^item> \<open>insertExecuted n\<close>:
    \<^verbatim>\<open>db.insertInto(MIGRATION_TABLE).values({ name: n }).execute()\<close>;
  \<^item> \<open>transaction body\<close>: \<^verbatim>\<open>db.transaction(body)\<close>; the body may not return,
    which is the value \<open>None\<close>;
  \<^item> \<open>setTimeout ms\<close>: the world once a timer of \<open>ms\<close> milliseconds has fired. It is
    the host's, not the query layer's; it is kept in the same record so that one value
    stands for everything outside the module.
\<close>

record ('w, 'x, 'm) kysely =
  getTableMetadata :: "string \<Rightarrow> 'w \<Rightarrow> ('x error + 'm option) \<times> 'w"
  createTable :: "string \<Rightarrow> column list \<Rightarrow> 'w \<Rightarrow> ('x error + unit) \<times> 'w"
  selectLockRow :: "string \<Rightarrow> 'w \<Rightarrow> ('x error + lock_row option) \<times> 'w"
  insertLockRow :: "string \<Rightarrow> 'w \<Rightarrow> ('x error + unit) \<times> 'w"
  updateLock :: "int \<Rightarrow> int option \<Rightarrow> string \<Rightarrow> 'w \<Rightarrow> ('x error + nat) \<times> 'w"
  selectExecuted :: "'w \<Rightarrow> ('x error + name list) \<times> 'w"
  insertExecuted :: "name \<Rightarrow> 'w \<Rightarrow> ('x error + unit) \<times> 'w"
  transaction :: "('w \<Rightarrow> (('x error + unit) \<times> 'w) option)
                    \<Rightarrow> 'w \<Rightarrow> (('x error + unit) \<times> 'w) option"
  setTimeout :: "nat \<Rightarrow> 'w \<Rightarrow> 'w"

text \<open>
  What reading a property of an object gives: nothing, a function, or another value.
\<close>

datatype 'f jsvalue = Undefined | Function 'f | NonFunction

text \<open>
  An operation of a migration receives the handle, so it may change any part of the
  world.
\<close>

type_synonym ('w, 'x) operation = "'w \<Rightarrow> ('x error + unit) \<times> 'w"

text \<open>
  \<^verbatim>\<open>interface Migration { up(db): Promise<void>; down(db): Promise<void> }\<close>.
  At run time a migration is an object: a module, an object literal or an instance of
  a class. \<open>up\<close> and \<open>down\<close> are what \<^verbatim>\<open>obj.up\<close> and \<^verbatim>\<open>obj.down\<close> read,
  through the prototype chain. \<open>ownUp\<close> and \<open>ownDown\<close> tell whether the property is
  an own enumerable property of the object, as the exports of a module and the
  properties of an object literal are, or is inherited, as a method of a class is.
\<close>

record ('w, 'x) migration =
  up :: "('w, 'x) operation jsvalue"
  down :: "('w, 'x) operation jsvalue"
  ownUp :: bool
  ownDown :: bool

text \<open>
  \<^verbatim>\<open>{ ...obj }\<close> copies the own enumerable properties of \<open>obj\<close> into a new plain
  object; the prototype of a plain object has no \<open>up\<close> and no \<open>down\<close>.
\<close>

definition spread :: "('w, 'x) migration \<Rightarrow> ('w, 'x) migration" where
  "spread obj =
     \<lparr>up = (if ownUp obj then up obj else Undefined),
      down = (if ownDown obj then down obj else Undefined),
      ownUp = ownUp obj,
      ownDown = ownDown obj\<rparr>"

text \<open>
  The call \<^verbatim>\<open>migration.up(db)\<close> of the value read from the property: a value
  that is not a function throws a \<^verbatim>\<open>TypeError\<close>.
\<close>

definition call :: "('w, 'x) operation jsvalue \<Rightarrow> ('w, 'x) operation" where
  "call v w =
     (case v of
        Function f \<Rightarrow> f w
      | _ \<Rightarrow> (Inl (TypeError ''migration.up is not a function''), w))"

text \<open>
  \<^verbatim>\<open>Record<string, Migration>\<close>: an object whose own keys are the names. An object
  has each key once and finitely many keys; the order in which it lists them is not
  kept, since the only reader sorts them.
\<close>

type_synonym ('w, 'x) migrations = "(name, ('w, 'x) migration) fmap"

text \<open>Sequencing of two awaited calls: an error of the first skips the second.\<close>

definition andThen ::
  "('w \<Rightarrow> ('e + 'a) \<times> 'w) \<Rightarrow> ('a \<Rightarrow> 'w \<Rightarrow> ('e + 'b) \<times> 'w) \<Rightarrow> 'w \<Rightarrow> ('e + 'b) \<times> 'w" where
  "andThen m f w = (case m w of (Inl e, w') \<Rightarrow> (Inl e, w') | (Inr a, w') \<Rightarrow> f a w')"

subsection \<open>Bootstrap of the tracking tables\<close>

definition doesTableExists :: "('w, 'x, 'm) kysely \<Rightarrow> string \<Rightarrow> 'w \<Rightarrow> ('x error + bool) \<times> 'w" where
  "doesTableExists db tableName =
     andThen (getTableMetadata db tableName) (\<lambda>metadata w. (Inr (metadata \<noteq> None), w))"

definition doesLockRowExists :: "('w, 'x, 'm) kysely \<Rightarrow> 'w \<Rightarrow> ('x error + bool) \<times> 'w" where
  "doesLockRowExists db =
     andThen (selectLockRow db MIGRATION_LOCK_ID) (\<lambda>lockRow w. (Inr (lockRow \<noteq> None), w))"

text \<open>
  \<^verbatim>\<open>try { await create } catch (error) { if (!(await exists)) throw error }\<close>:
  an error thrown by the second existence check itself replaces the caught one.
\<close>

definition ensureMigrationTableExists :: "('w, 'x, 'm) kysely \<Rightarrow> 'w \<Rightarrow> ('x error + unit) \<times> 'w" where
  "ensureMigrationTableExists db =
     andThen (doesTableExists db MIGRATION_TABLE) (\<lambda>exists w.
       if \<not> exists then
         (case createTable db MIGRATION_TABLE [StringColumn ''name'' True] w of
            (Inr u, w') \<Rightarrow> (Inr (), w')
          | (Inl error, w') \<Rightarrow>
              andThen (doesTableExists db MIGRATION_TABLE) (\<lambda>exists' w''.
                if \<not> exists' then (Inl error, w'') else (Inr (), w'')) w')
       else (Inr (), w))"

definition ensureMigrationLockTableExists :: "('w, 'x, 'm) kysely \<Rightarrow> 'w \<Rightarrow> ('x error + unit) \<times> 'w" where
  "ensureMigrationLockTableExists db =
     andThen (doesTableExists db MIGRATION_LOCK_TABLE) (\<lambda>exists w.
       if \<not> exists then
         (case createTable db MIGRATION_LOCK_TABLE
                 [StringColumn ''id'' True, IntegerColumn ''is_locked'' True (Some 0)] w of
            (Inr u, w') \<Rightarrow> (Inr (), w')
          | (Inl error, w') \<Rightarrow>
              andThen (doesTableExists db MIGRATION_LOCK_TABLE) (\<lambda>exists' w''.
                if \<not> exists' then (Inl error, w'') else (Inr (), w'')) w')
       else (Inr (), w))"

definition ensureLockRowExists :: "('w, 'x, 'm) kysely \<Rightarrow> 'w \<Rightarrow> ('x error + unit) \<times> 'w" where
  "ensureLockRowExists db =
     andThen (doesLockRowExists db) (\<lambda>exists w.
       if \<not> exists then
         (case insertLockRow db MIGRATION_LOCK_ID w of
            (Inr u, w') \<Rightarrow> (Inr (), w')
          | (Inl error, w') \<Rightarrow>
              andThen (doesLockRowExists db) (\<lambda>exists' w''.
                if \<not> exists' then (Inl error, w'') else (Inr (), w'')) w')
       else (Inr (), w))"

definition ensureMigrationTablesExists :: "('w, 'x, 'm) kysely \<Rightarrow> 'w \<Rightarrow> ('x error + unit) \<times> 'w" where
  "ensureMigrationTablesExists db =
     andThen (ensureMigrationTableExists db) (\<lambda>_.
     andThen (ensureMigrationLockTableExists db) (\<lambda>_.
     ensureLockRowExists db))"

subsection \<open>The lock\<close>

definition tryAcquireLock :: "('w, 'x, 'm) kysely \<Rightarrow> 'w \<Rightarrow> ('x error + bool) \<times> 'w" where
  "tryAcquireLock db =
     andThen (updateLock db 1 (Some 0) MIGRATION_LOCK_ID)
       (\<lambda>numUpdatedRows w. (Inr (numUpdatedRows = 1), w))"

definition sleep :: "('w, 'x, 'm) kysely \<Rightarrow> nat \<Rightarrow> 'w \<Rightarrow> 'w" where
  "sleep db millis = setTimeout db millis"

text \<open>
  \<^verbatim>\<open>while (!(await tryAcquireLock(db))) { await sleep(100) }\<close>. The loop has no
  bound, so the function is partial: \<open>None\<close> is the run that never returns.
\<close>

partial_function (option) acquireLock ::
  "('w, 'x, 'm) kysely \<Rightarrow> 'w \<Rightarrow> (('x error + unit) \<times> 'w) option" where
  "acquireLock db w =
     (case tryAcquireLock db w of
        (Inl e, w') \<Rightarrow> Some (Inl e, w')
      | (Inr acquired, w') \<Rightarrow>
          if \<not> acquired then acquireLock db (sleep db 100 w') else Some (Inr (), w'))"

definition releaseLock :: "('w, 'x, 'm) kysely \<Rightarrow> 'w \<Rightarrow> ('x error + unit) \<times> 'w" where
  "releaseLock db =
     andThen (updateLock db 0 None MIGRATION_LOCK_ID) (\<lambda>_ w. (Inr (), w))"

subsection \<open>Running the new migrations\<close>

text \<open>
  Modelled from the spec: \<^verbatim>\<open>getLast\<close> of \<^verbatim>\<open>util/object-utils\<close>, which is
  not among the sources; the spec reads it as \<^verbatim>\<open>executed.last()\<close>, or none if
  the list is empty.
\<close>

definition getLast :: "'a list \<Rightarrow> 'a option" where
  "getLast xs = (if xs = [] then None else Some (last xs))"

text \<open>\<^verbatim>\<open>Array.prototype.findIndex\<close>: the first index whose element passes, or -1.\<close>

fun findIndex :: "('a \<Rightarrow> bool) \<Rightarrow> 'a list \<Rightarrow> int" where
  "findIndex p [] = -1"
| "findIndex p (x # xs) =
     (if p x then 0 else (let i = findIndex p xs in if i = -1 then -1 else i + 1))"

text \<open>
  \<^verbatim>\<open>Array.prototype.slice\<close>: a negative index counts from the end, and both
  indices are clamped to the array.
\<close>

definition sliceIndex :: "int \<Rightarrow> 'a list \<Rightarrow> nat" where
  "sliceIndex i xs =
     (if i < 0 then nat (max (int (length xs) + i) 0) else min (nat i) (length xs))"

definition slice :: "int \<Rightarrow> int \<Rightarrow> 'a list \<Rightarrow> 'a list" where
  "slice start stop xs =
     take (sliceIndex stop xs - sliceIndex start xs) (drop (sliceIndex start xs) xs)"

definition sliceFrom :: "int \<Rightarrow> 'a list \<Rightarrow> 'a list" where
  "sliceFrom start xs = drop (sliceIndex start xs) xs"

text \<open>
  \<^verbatim>\<open>new Set(xs)\<close>, as the list of its elements in iteration order: each element
  once, at the place of its first occurrence.
\<close>

definition newSet :: "'a list \<Rightarrow> 'a list" where
  "newSet xs = fold (\<lambda>x s. if x \<in> set s then s else s @ [x]) xs []"

definition missingMessage :: "name \<Rightarrow> string" where
  "missingMessage it =
     ''corrupted migrations: previously executed migration '' @ it @ '' is missing''"

definition beforeMessage :: "name \<Rightarrow> string" where
  "beforeMessage it =
     ''corrupted migrations: new migration '' @ it @
     '' comes alphabetically before the last executed migration. New migrations must always have a name that comes alphabetically after the last executed migration.''"

definition ensureMigrationsAreNotCorrupted :: "name list \<Rightarrow> name list \<Rightarrow> 'x error + unit" where
  "ensureMigrationsAreNotCorrupted executedMigrationNames oldMigrationNames =
     (let executedSet = newSet executedMigrationNames;
          oldMigrationSet = newSet oldMigrationNames
      in case find (\<lambda>it. it \<notin> set oldMigrationSet) executedSet of
           Some it \<Rightarrow> Inl (Error (missingMessage it))
         | None \<Rightarrow>
            (case find (\<lambda>it. it \<notin> set executedSet) oldMigrationSet of
               Some it \<Rightarrow> Inl (Error (beforeMessage it))
             | None \<Rightarrow> Inr ()))"

text \<open>
  \<^verbatim>\<open>Object.keys(allMigrations).sort().map((name) => ({ ...allMigrations[name], name }))\<close>:
  for each key in ascending order, the copy of the own enumerable properties of the
  migration, together with the name. The name is the first component of the pair.
  Every name comes from the keys, so the lookup finds it.
\<close>

definition sortedMigrations :: "('w, 'x) migrations \<Rightarrow> (name \<times> ('w, 'x) migration) list" where
  "sortedMigrations allMigrations =
     map (\<lambda>name. (name, spread (the (fmlookup allMigrations name))))
       (sorted_list_of_fset (fmdom allMigrations))"

text \<open>
  \<^verbatim>\<open>lastExecuted?.name\<close> is undefined when there is no last row, and no name is
  equal to undefined.
\<close>

definition lastExecutedIndex :: "(name \<times> 'm) list \<Rightarrow> name option \<Rightarrow> int" where
  "lastExecutedIndex sortedMs lastExecuted =
     findIndex (\<lambda>it. Some (fst it) = lastExecuted) sortedMs"

definition oldMigrations :: "(name \<times> 'm) list \<Rightarrow> name option \<Rightarrow> (name \<times> 'm) list" where
  "oldMigrations sortedMs lastExecuted =
     (if lastExecuted \<noteq> None
      then slice 0 (lastExecutedIndex sortedMs lastExecuted + 1) sortedMs
      else [])"

definition newMigrations :: "(name \<times> 'm) list \<Rightarrow> name option \<Rightarrow> (name \<times> 'm) list" where
  "newMigrations sortedMs lastExecuted =
     (if lastExecuted \<noteq> None
      then sliceFrom (lastExecutedIndex sortedMs lastExecuted + 1) sortedMs
      else sortedMs)"

text \<open>
  The loop \<^verbatim>\<open>for (const migration of newMigrations)\<close>: the call of
  \<^verbatim>\<open>migration.up\<close>, then the insertion of the name; the first error ends the loop.
\<close>

fun runEach ::
  "('w, 'x, 'm) kysely \<Rightarrow> (name \<times> ('w, 'x) migration) list \<Rightarrow> 'w \<Rightarrow> ('x error + unit) \<times> 'w" where
  "runEach db [] w = (Inr (), w)"
| "runEach db (migration # rest) w =
     (case call (up (snd migration)) w of
        (Inl e, w') \<Rightarrow> (Inl e, w')
      | (Inr u, w') \<Rightarrow>
         (case insertExecuted db (fst migration) w' of
            (Inl e, w'') \<Rightarrow> (Inl e, w'')
          | (Inr u', w'') \<Rightarrow> runEach db rest w''))"

definition runNewMigrations ::
  "('w, 'x, 'm) kysely \<Rightarrow> ('w, 'x) migrations \<Rightarrow> 'w \<Rightarrow> ('x error + unit) \<times> 'w" where
  "runNewMigrations db allMigrations =
     andThen (selectExecuted db) (\<lambda>executedMigrations w.
       let sortedMs = sortedMigrations allMigrations;
           lastExecuted = getLast executedMigrations
       in if lastExecuted \<noteq> None \<and> lastExecutedIndex sortedMs lastExecuted = -1
          then (Inl (Error (missingMessage (the lastExecuted))), w)
          else (case ensureMigrationsAreNotCorrupted executedMigrations
                       (map fst (oldMigrations sortedMs lastExecuted)) of
                  Inl e \<Rightarrow> (Inl e, w)
                | Inr u \<Rightarrow> runEach db (newMigrations sortedMs lastExecuted) w))"

subsection \<open>The entry point\<close>

text \<open>
  The transaction wraps the lock, the run and the release. The callback does not
  return when the lock is never acquired.
\<close>

definition doMigrateToLatest ::
  "('w, 'x, 'm) kysely \<Rightarrow> ('w, 'x) migrations \<Rightarrow> 'w \<Rightarrow> (('x error + unit) \<times> 'w) option" where
  "doMigrateToLatest db migrations w =
     (case ensureMigrationTablesExists db w of
        (Inl e, w') \<Rightarrow> Some (Inl e, w')
      | (Inr u, w') \<Rightarrow>
          transaction db (\<lambda>trx.
            case acquireLock db trx of
              None \<Rightarrow> None
            | Some (Inl e, trx') \<Rightarrow> Some (Inl e, trx')
            | Some (Inr u', trx') \<Rightarrow>
                Some (andThen (runNewMigrations db migrations) (\<lambda>_. releaseLock db) trx')) w')"

subsection \<open>Reading the migrations of a folder\<close>

text \<open>
  Modelled from the spec: \<^verbatim>\<open>isFunction\<close> of \<^verbatim>\<open>util/object-utils\<close>, which
  is not among the sources: whether a value is a function.
\<close>

definition isFunction :: "'f jsvalue \<Rightarrow> bool" where
  "isFunction v = (case v of Function f \<Rightarrow> True | _ \<Rightarrow> False)"

text \<open>
  \<^verbatim>\<open>obj && isFunction(obj.up) && isFunction(obj.down)\<close>; a module namespace object
  is never falsy. The function is a type guard (\<^verbatim>\<open>obj is Migration\<close>): where it
  holds, the loaded module itself is used as a migration.
\<close>

definition isMigration :: "('w, 'x) migration \<Rightarrow> bool" where
  "isMigration obj = (isFunction (up obj) \<and> isFunction (down obj))"

text \<open>
  The host of the loader: \<^verbatim>\<open>fs.readdir\<close>, \<^verbatim>\<open>path.join\<close> and the dynamic
  \<^verbatim>\<open>import()\<close>, which gives the module as an object. Reading a directory and
  loading a module may fail.
\<close>

record ('w, 'x) loader =
  readdir :: "string \<Rightarrow> 'x error + string list"
  join :: "string \<Rightarrow> string \<Rightarrow> string"
  importModule :: "string \<Rightarrow> 'x error + ('w, 'x) migration"

definition endsWith :: "string \<Rightarrow> string \<Rightarrow> bool" where
  "endsWith file ext = suffix ext file"

text \<open>
  \<^verbatim>\<open>file.substring(0, file.length - 3)\<close>; a negative end counts as 0, which is
  what the subtraction of natural numbers gives.
\<close>

definition migrationName :: "string \<Rightarrow> name" where
  "migrationName file = take (length file - 3) file"

text \<open>
  \<^verbatim>\<open>migrations[key] = migration\<close> on the plain object \<^verbatim>\<open>migrations\<close>: the key
  gets the value, in place of the value it had. The key \<^verbatim>\<open>__proto__\<close> is the
  exception: the assignment of an object to it replaces the prototype of
  \<^verbatim>\<open>migrations\<close> and adds no key.
\<close>

definition assign ::
  "name \<Rightarrow> ('w, 'x) migration \<Rightarrow> ('w, 'x) migrations \<Rightarrow> ('w, 'x) migrations" where
  "assign key migration migrations =
     (if key = ''__proto__'' then migrations else fmupd key migration migrations)"

text \<open>
  The loop \<^verbatim>\<open>for (const file of files)\<close>, with the object built so far.
\<close>

fun readEach ::
  "('w, 'x) loader \<Rightarrow> string \<Rightarrow> string list \<Rightarrow> ('w, 'x) migrations
     \<Rightarrow> 'x error + ('w, 'x) migrations" where
  "readEach host migrationsFolderPath [] migrations = Inr migrations"
| "readEach host migrationsFolderPath (file # files) migrations =
     (if (endsWith file ''.js'' \<or> endsWith file ''.ts'') \<and> \<not> endsWith file ''.d.ts'' then
        (case importModule host (join host migrationsFolderPath file) of
           Inl e \<Rightarrow> Inl e
         | Inr migration \<Rightarrow>
            (if isMigration migration then
               readEach host migrationsFolderPath files
                 (assign (migrationName file) migration migrations)
             else readEach host migrationsFolderPath files migrations))
      else readEach host migrationsFolderPath files migrations)"

definition readMigrationsFromFolder ::
  "('w, 'x) loader \<Rightarrow> string \<Rightarrow> 'x error + ('w, 'x) migrations" where
  "readMigrationsFromFolder host migrationsFolderPath =
     (case readdir host migrationsFolderPath of
        Inl e \<Rightarrow> Inl e
      | Inr files \<Rightarrow> readEach host migrationsFolderPath files fmempty)"

text \<open>
  \<^verbatim>\<open>migrateToLatest(migrations: string | Record<string, Migration>)\<close>: a folder
  path (\<open>Inl\<close>) or the migrations themselves (\<open>Inr\<close>).
\<close>

definition migrateToLatest ::
  "('w, 'x, 'm) kysely \<Rightarrow> ('w, 'x) loader \<Rightarrow> string + ('w, 'x) migrations
     \<Rightarrow> 'w \<Rightarrow> (('x error + unit) \<times> 'w) option" where
  "migrateToLatest db host migrations w =
     (case migrations of
        Inl migrationsFolderPath \<Rightarrow>
          (case readMigrationsFromFolder host migrationsFolderPath of
             Inl e \<Rightarrow> Some (Inl e, w)
           | Inr allMigrations \<Rightarrow> doMigrateToLatest db allMigrations w)
      | Inr allMigrations \<Rightarrow> doMigrateToLatest db allMigrations w)"

subsection \<open>A reference query layer\<close>

text \<open>
  Modelled from the spec: the query layer (\<^verbatim>\<open>Kysely\<close>, imported from
  \<^verbatim>\<open>../kysely\<close>) is not among the sources. The spec gives the persisted schema:
  table \<^verbatim>\<open>kysely_migration\<close> with the column \<^verbatim>\<open>name\<close> as primary key, and table
  \<^verbatim>\<open>kysely_migration_lock\<close> with the primary key \<^verbatim>\<open>id\<close> and the integer
  \<^verbatim>\<open>is_locked\<close>, not null, 0 by default. It gives the operations: listing the
  executed names in ascending lexicographic order, recording a name, which fails if
  the name already exists, and a transaction whose rollback cancels all effects of
  its body. A table that was never created is \<open>None\<close>. The rest of the database is
  \<open>schema\<close>. This layer is one process alone with its database: nothing else changes
  the world, and waiting changes nothing.
\<close>

record 'u database =
  migration_table :: "name list option"
  lock_table :: "lock_row list option"
  schema :: 'u

text \<open>
  Modelled from the spec: the metadata of a table of the query layer: its name for a
  tracking table that was created, nothing otherwise.
\<close>

definition ref_getTableMetadata :: "string \<Rightarrow> 'u database \<Rightarrow> ('x error + string option) \<times> 'u database" where
  "ref_getTableMetadata t w =
     (if t = MIGRATION_TABLE then (Inr (map_option (\<lambda>_. t) (migration_table w)), w)
      else if t = MIGRATION_LOCK_TABLE then (Inr (map_option (\<lambda>_. t) (lock_table w)), w)
      else (Inr None, w))"

text \<open>
  Modelled from the spec: the creation of a tracking table if it does not exist, with no rows;
  the columns are those of the persisted schema. Other tables are outside this layer.
\<close>

definition ref_createTable :: "string \<Rightarrow> column list \<Rightarrow> 'u database \<Rightarrow> ('x error + unit) \<times> 'u database" where
  "ref_createTable t cols w =
     (if t = MIGRATION_TABLE then
        (Inr (), if migration_table w = None then w\<lparr>migration_table := Some []\<rparr> else w)
      else if t = MIGRATION_LOCK_TABLE then
        (Inr (), if lock_table w = None then w\<lparr>lock_table := Some []\<rparr> else w)
      else (Inl (Unsupported t), w))"

text \<open>
  Modelled from the spec: the first row of the lock table with the given id.
\<close>

definition ref_selectLockRow :: "string \<Rightarrow> 'u database \<Rightarrow> ('x error + lock_row option) \<times> 'u database" where
  "ref_selectLockRow i w =
     (case lock_table w of
        None \<Rightarrow> (Inl (NoSuchTable MIGRATION_LOCK_TABLE), w)
      | Some rows \<Rightarrow> (Inr (find (\<lambda>row. fst row = i) rows), w))"

text \<open>
  Modelled from the spec: the insertion of a lock row; \<open>id\<close> is the primary key and
  \<open>is_locked\<close> is 0 by default.
\<close>

definition ref_insertLockRow :: "string \<Rightarrow> 'u database \<Rightarrow> ('x error + unit) \<times> 'u database" where
  "ref_insertLockRow i w =
     (case lock_table w of
        None \<Rightarrow> (Inl (NoSuchTable MIGRATION_LOCK_TABLE), w)
      | Some rows \<Rightarrow>
          if i \<in> fst ` set rows then (Inl (DuplicateKey MIGRATION_LOCK_TABLE i), w)
          else (Inr (), w\<lparr>lock_table := Some (rows @ [(i, 0)])\<rparr>))"

text \<open>
  Modelled from the spec: the conditions of the update of the lock row: the value of
  \<open>is_locked\<close>, if one is asked for, and the id.
\<close>

definition lockRowMatches :: "int option \<Rightarrow> string \<Rightarrow> lock_row \<Rightarrow> bool" where
  "lockRowMatches c i row =
     ((case c of None \<Rightarrow> True | Some c' \<Rightarrow> snd row = c') \<and> fst row = i)"

text \<open>
  Modelled from the spec: the update of \<open>is_locked\<close> in the rows that match, and their
  number.
\<close>

definition ref_updateLock :: "int \<Rightarrow> int option \<Rightarrow> string \<Rightarrow> 'u database \<Rightarrow> ('x error + nat) \<times> 'u database" where
  "ref_updateLock v c i w =
     (case lock_table w of
        None \<Rightarrow> (Inl (NoSuchTable MIGRATION_LOCK_TABLE), w)
      | Some rows \<Rightarrow>
          (Inr (length (filter (lockRowMatches c i) rows)),
           w\<lparr>lock_table :=
               Some (map (\<lambda>row. if lockRowMatches c i row then (fst row, v) else row) rows)\<rparr>))"

text \<open>
  Modelled from the spec: \<open>listExecuted\<close>, the names of the ledger in ascending
  lexicographic order.
\<close>

definition ref_selectExecuted :: "'u database \<Rightarrow> ('x error + name list) \<times> 'u database" where
  "ref_selectExecuted w =
     (case migration_table w of
        None \<Rightarrow> (Inl (NoSuchTable MIGRATION_TABLE), w)
      | Some rows \<Rightarrow> (Inr (sort rows), w))"

text \<open>
  Modelled from the spec: \<open>recordExecuted\<close>, which inserts one ledger entry and fails if
  the name already exists.
\<close>

definition ref_insertExecuted :: "name \<Rightarrow> 'u database \<Rightarrow> ('x error + unit) \<times> 'u database" where
  "ref_insertExecuted n w =
     (case migration_table w of
        None \<Rightarrow> (Inl (NoSuchTable MIGRATION_TABLE), w)
      | Some rows \<Rightarrow>
          if n \<in> set rows then (Inl (DuplicateKey MIGRATION_TABLE n), w)
          else (Inr (), w\<lparr>migration_table := Some (rows @ [n])\<rparr>))"

text \<open>
  Modelled from the spec: the transaction of the query layer: it commits when its body
  returns and rolls back, cancelling all effects of the body, when the body throws.
\<close>

definition ref_transaction ::
  "('u database \<Rightarrow> (('x error + unit) \<times> 'u database) option)
     \<Rightarrow> 'u database \<Rightarrow> (('x error + unit) \<times> 'u database) option" where
  "ref_transaction body w =
     (case body w of
        None \<Rightarrow> None
      | Some (Inl e, w') \<Rightarrow> Some (Inl e, w)
      | Some (Inr u, w') \<Rightarrow> Some (Inr u, w'))"

text \<open>
  Modelled from the spec: the database handle of the reference layer.
\<close>

definition ref :: "('u database, 'x, string) kysely" where
  "ref = \<lparr>getTableMetadata = ref_getTableMetadata,
          createTable = ref_createTable,
          selectLockRow = ref_selectLockRow,
          insertLockRow = ref_insertLockRow,
          updateLock = ref_updateLock,
          selectExecuted = ref_selectExecuted,
          insertExecuted = ref_insertExecuted,
          transaction = ref_transaction,
          setTimeout = (\<lambda>millis w. w)\<rparr>"

subsection \<open>The properties of the specification\<close>

text \<open>
  The names of the migrations in ascending order: the full ordered name sequence of
  the migration set.
\<close>

definition orderedNames :: "('w, 'x) migrations \<Rightarrow> name list" where
  "orderedNames ms = sorted_list_of_fset (fmdom ms)"

text \<open>
  Invariant I1, on the names of the migrations and the rows of the ledger: the
  ledger, in ascending order, is a prefix of the names in ascending order.
\<close>

definition I1 :: "name list \<Rightarrow> name list \<Rightarrow> bool" where
  "I1 names ledger = prefix (sort ledger) (sort names)"

text \<open>
  What the specification asks of a run: the migrations whose names sort strictly
  after the last executed name, all of them when nothing was executed, in ascending
  order of their names.
\<close>

definition pendingMigrations ::
  "('w, 'x) migrations \<Rightarrow> name list \<Rightarrow> (name \<times> ('w, 'x) migration) list" where
  "pendingMigrations ms ledger =
     filter (\<lambda>m. ledger = [] \<or> Max (set ledger) < fst m) (sorted_list_of_fmap ms)"

text \<open>
  Applying one migration: the call of its forward operation, then its name into the
  ledger.
\<close>

definition applyMigration ::
  "('w, 'x, 'm) kysely \<Rightarrow> name \<times> ('w, 'x) migration \<Rightarrow> 'w \<Rightarrow> ('x error + unit) \<times> 'w" where
  "applyMigration db m = andThen (call (up (snd m))) (\<lambda>_. insertExecuted db (fst m))"

text \<open>Applying a list of migrations, each once, in the order of the list.\<close>

definition applyInOrder ::
  "('w, 'x, 'm) kysely \<Rightarrow> (name \<times> ('w, 'x) migration) list \<Rightarrow> 'w \<Rightarrow> ('x error + unit) \<times> 'w" where
  "applyInOrder db ms =
     foldr (\<lambda>m rest. andThen (applyMigration db m) (\<lambda>_. rest)) ms (\<lambda>w. (Inr (), w))"

text \<open>A migration whose forward operation leaves the ledger table as it is.\<close>

definition keepsLedger :: "('u database, 'x) migration \<Rightarrow> bool" where
  "keepsLedger m = (\<forall>w. migration_table (snd (call (up m) w)) = migration_table w)"

subsection \<open>Example databases and migrations\<close>

text \<open>
  A migration that creates one table: the schema is the list of the tables created.
  It is an object literal or a module: \<^verbatim>\<open>up\<close> and \<^verbatim>\<open>down\<close> are its own
  properties.
\<close>

definition createsTable :: "string \<Rightarrow> (string list database, unit) migration" where
  "createsTable t =
     \<lparr>up = Function (\<lambda>w. (Inr (), w\<lparr>schema := schema w @ [t]\<rparr>)),
      down = Function (\<lambda>w. (Inr (), w\<lparr>schema := removeAll t (schema w)\<rparr>)),
      ownUp = True,
      ownDown = True\<rparr>"

text \<open>The three migrations of the scenarios of the specification.\<close>

definition exampleMigrations :: "(string list database, unit) migrations" where
  "exampleMigrations =
     fmap_of_list
       [(''002_users'', createsTable ''users''),
        (''001_init'', createsTable ''init''),
        (''003_posts'', createsTable ''posts'')]"

text \<open>A bootstrapped database with a free lock, a ledger and a schema.\<close>

definition exampleDb :: "name list \<Rightarrow> string list \<Rightarrow> string list database" where
  "exampleDb ledger tables =
     \<lparr>migration_table = Some ledger,
      lock_table = Some [(MIGRATION_LOCK_ID, 0)],
      schema = tables\<rparr>"

text \<open>A set from which the executed \<open>002_users\<close> has been deleted.\<close>

definition initOnly :: "(string list database, unit) migrations" where
  "initOnly = fmap_of_list [(''001_init'', createsTable ''init'')]"

text \<open>A set to which \<open>001_new\<close> was added after \<open>002_users\<close> had run.\<close>

definition insertedBefore :: "(string list database, unit) migrations" where
  "insertedBefore =
     fmap_of_list [(''001_new'', createsTable ''new''), (''002_users'', createsTable ''users'')]"

text \<open>A set whose only migration was renamed from \<open>b\<close> to \<open>a\<close> after it had run.\<close>

definition renamedEarlier :: "(string list database, unit) migrations" where
  "renamedEarlier = fmap_of_list [(''a'', createsTable ''users'')]"

text \<open>
  The same migration as an instance of a class: \<^verbatim>\<open>up\<close> and \<^verbatim>\<open>down\<close> are
  methods, inherited from the prototype.
\<close>

definition asInstance :: "('w, 'x) migration \<Rightarrow> ('w, 'x) migration" where
  "asInstance m = m\<lparr>ownUp := False, ownDown := False\<rparr>"

definition instanceOnly :: "(string list database, unit) migrations" where
  "instanceOnly = fmap_of_list [(''001_init'', asInstance (createsTable ''init''))]"

text \<open>A migration whose forward operation deletes the rows of the ledger table.\<close>

definition wipesLedger :: "(string list database, unit) migration" where
  "wipesLedger =
     \<lparr>up = Function (\<lambda>w. (Inr (), w\<lparr>migration_table := Some []\<rparr>)),
      down = Function (\<lambda>w. (Inr (), w)),
      ownUp = True,
      ownDown = True\<rparr>"

definition wipingMigrations :: "(string list database, unit) migrations" where
  "wipingMigrations =
     fmap_of_list [(''001_init'', createsTable ''init''), (''002_wipe'', wipesLedger)]"

text \<open>
  A migration whose forward operation writes a name into the ledger table itself.
\<close>

definition recordsName :: "name \<Rightarrow> (string list database, unit) migration" where
  "recordsName n =
     \<lparr>up = Function (\<lambda>w. (Inr (),
             w\<lparr>migration_table := map_option (\<lambda>rows. rows @ [n]) (migration_table w)\<rparr>)),
      down = Function (\<lambda>w. (Inr (), w)),
      ownUp = True,
      ownDown = True\<rparr>"

definition foreignEntry :: "(string list database, unit) migrations" where
  "foreignEntry = fmap_of_list [(''a'', recordsName ''zzz'')]"

definition selfRecording :: "(string list database, unit) migrations" where
  "selfRecording = fmap_of_list [(''a'', recordsName ''a'')]"

subsection \<open>Definitions for the lock and the bootstrap\<close>

text \<open>
  The world after \<open>k\<close> failed attempts to take the lock, each followed by a wait
  of \<open>millis\<close> milliseconds.
\<close>

primrec afterRetries :: "('w, 'x, 'm) kysely \<Rightarrow> nat \<Rightarrow> nat \<Rightarrow> 'w \<Rightarrow> 'w" where
  "afterRetries db millis 0 w = w"
| "afterRetries db millis (Suc k) w =
     afterRetries db millis k (setTimeout db millis (snd (tryAcquireLock db w)))"

text \<open>
  What the specification asks of a bootstrap step, given its existence check and its
  creation call: nothing but the check when the object exists; success when the
  creation succeeds; when the creation fails, a second check, with success if the
  object exists now and the failure of the creation otherwise.
\<close>

definition raceTolerant ::
  "('w \<Rightarrow> ('e + bool) \<times> 'w) \<Rightarrow> ('w \<Rightarrow> ('e + unit) \<times> 'w) \<Rightarrow> ('w \<Rightarrow> ('e + unit) \<times> 'w) \<Rightarrow> bool" where
  "raceTolerant exists create step \<longleftrightarrow>
     (\<forall>w w1. exists w = (Inr True, w1) \<longrightarrow> step w = (Inr (), w1)) \<and>
     (\<forall>w w1 w2. exists w = (Inr False, w1) \<and> create w1 = (Inr (), w2)
        \<longrightarrow> step w = (Inr (), w2)) \<and>
     (\<forall>w w1 e w2 w3. exists w = (Inr False, w1) \<and> create w1 = (Inl e, w2) \<and>
        exists w2 = (Inr True, w3) \<longrightarrow> step w = (Inr (), w3)) \<and>
     (\<forall>w w1 e w2 w3. exists w = (Inr False, w1) \<and> create w1 = (Inl e, w2) \<and>
        exists w2 = (Inr False, w3) \<longrightarrow> step w = (Inl e, w3))"

text \<open>
  The rows of the ledger and of the lock table of the reference layer, none when the
  table was never created.
\<close>

definition ledgerOf :: "'u database \<Rightarrow> name list" where
  "ledgerOf w = (case migration_table w of None \<Rightarrow> [] | Some rows \<Rightarrow> rows)"

definition lockRowsOf :: "'u database \<Rightarrow> lock_row list" where
  "lockRowsOf w = (case lock_table w of None \<Rightarrow> [] | Some rows \<Rightarrow> rows)"

text \<open>
  The lock is free: the lock row is absent, or it is there once with
  \<open>is_locked = 0\<close>.
\<close>

definition lockFree :: "'u database \<Rightarrow> bool" where
  "lockFree w =
     (filter (\<lambda>row. fst row = MIGRATION_LOCK_ID) (lockRowsOf w) = [] \<or>
      filter (\<lambda>row. fst row = MIGRATION_LOCK_ID) (lockRowsOf w) = [(MIGRATION_LOCK_ID, 0)])"

text \<open>
  What the bootstrap leaves of a database of the reference layer: both tables, with
  the rows they had, and the lock row, added unlocked if it was absent.
\<close>

definition bootstrapped :: "'u database \<Rightarrow> 'u database" where
  "bootstrapped w =
     w\<lparr>migration_table := Some (ledgerOf w),
       lock_table := Some (if MIGRATION_LOCK_ID \<in> fst ` set (lockRowsOf w) then lockRowsOf w
                           else lockRowsOf w @ [(MIGRATION_LOCK_ID, 0)])\<rparr>"

subsection \<open>More example databases\<close>

text \<open>
  A database whose lock another process holds until the time \<open>t\<close>; the world is
  the time in milliseconds.
\<close>

definition heldUntil :: "nat \<Rightarrow> (nat, unit, unit) kysely" where
  "heldUntil t =
     \<lparr>getTableMetadata = (\<lambda>tableName now. (Inr (Some ()), now)),
      createTable = (\<lambda>tableName cols now. (Inr (), now)),
      selectLockRow = (\<lambda>i now. (Inr (Some (i, if t \<le> now then 0 else 1)), now)),
      insertLockRow = (\<lambda>i now. (Inr (), now)),
      updateLock = (\<lambda>v c i now. (Inr (if t \<le> now then 1 else 0), now)),
      selectExecuted = (\<lambda>now. (Inr [], now)),
      insertExecuted = (\<lambda>n now. (Inr (), now)),
      transaction = (\<lambda>body now. body now),
      setTimeout = (\<lambda>millis now. now + millis)\<rparr>"

text \<open>
  A database of the reference layer whose lock was left taken.
\<close>

definition staleLockDb :: "string list database" where
  "staleLockDb =
     \<lparr>migration_table = Some [], lock_table = Some [(MIGRATION_LOCK_ID, 1)], schema = []\<rparr>"

text \<open>
  A database in which every creation fails. The world tells whether the object
  exists; with \<open>raced\<close>, another process has created it when the creation fails.
\<close>

definition racing :: "bool \<Rightarrow> (bool, string, unit) kysely" where
  "racing raced =
     \<lparr>getTableMetadata = (\<lambda>tableName there. (Inr (if there then Some () else None), there)),
      createTable = (\<lambda>tableName cols there. (Inl (Thrown ''create failed''), raced)),
      selectLockRow = (\<lambda>i there. (Inr (if there then Some (i, 0) else None), there)),
      insertLockRow = (\<lambda>i there. (Inl (Thrown ''insert failed''), raced)),
      updateLock = (\<lambda>v c i there. (Inr (if there then 1 else 0), there)),
      selectExecuted = (\<lambda>there. (Inr [], there)),
      insertExecuted = (\<lambda>n there. (Inr (), there)),
      transaction = (\<lambda>body there. body there),
      setTimeout = (\<lambda>millis there. there)\<rparr>"

text \<open>
  A migration whose forward operation creates its table and then fails.
\<close>

definition failsAfterCreating :: "string \<Rightarrow> (string list database, unit) migration" where
  "failsAfterCreating t =
     \<lparr>up = Function (\<lambda>w. (Inl (Thrown ()), w\<lparr>schema := schema w @ [t]\<rparr>)),
      down = Function (\<lambda>w. (Inr (), w)),
      ownUp = True,
      ownDown = True\<rparr>"

definition brokenMigrations :: "(string list database, unit) migrations" where
  "brokenMigrations =
     fmap_of_list
       [(''001_init'', createsTable ''init''),
        (''002_users'', createsTable ''users''),
        (''003_posts'', failsAfterCreating ''posts'')]"

subsection \<open>Definitions for the loader\<close>

text \<open>
  A file that is loaded: its name ends in \<open>.js\<close> or \<open>.ts\<close>, and not in
  \<open>.d.ts\<close>.
\<close>

definition isMigrationFile :: "string \<Rightarrow> bool" where
  "isMigrationFile file =
     ((suffix ''.js'' file \<or> suffix ''.ts'' file) \<and> \<not> suffix ''.d.ts'' file)"






section \<open>Auxiliary facts\<close>

lemma findIndex_ge: "- 1 \<le> findIndex p xs"
  by (induction xs) (auto simp: Let_def)

lemma findIndex_none: "findIndex p xs = - 1 \<longleftrightarrow> (\<forall>x\<in>set xs. \<not> p x)"
proof (induction xs)
  case Nil
  then show ?case by simp
next
  case (Cons a xs)
  have "- 1 \<le> findIndex p xs" by (rule findIndex_ge)
  then have "findIndex p xs + 1 \<noteq> - 1" by arith
  with Cons show ?case by (simp add: Let_def)
qed

lemma findIndex_first:
  "\<forall>y\<in>set ys. \<not> p y \<Longrightarrow> p x \<Longrightarrow> findIndex p (ys @ x # zs) = int (length ys)"
  by (induction ys) (auto simp: Let_def)

lemma findIndex_nth:
  assumes "distinct (map f xs)" "k < length xs"
  shows "findIndex (\<lambda>it. Some (f it) = Some (f (xs ! k))) xs = int k"
proof -
  have xs: "xs = take k xs @ xs ! k # drop (Suc k) xs"
    using assms(2) by (simp add: id_take_nth_drop)
  have "\<forall>y\<in>set (take k xs). f y \<noteq> f (xs ! k)"
  proof
    fix y assume "y \<in> set (take k xs)"
    then obtain i where i: "i < k" "y = xs ! i"
      using assms(2) by (auto simp: in_set_conv_nth)
    then have "map f xs ! i \<noteq> map f xs ! k"
      using assms by (simp add: nth_eq_iff_index_eq del: nth_map)
    then show "f y \<noteq> f (xs ! k)" using i assms(2) by simp
  qed
  then have "findIndex (\<lambda>it. Some (f it) = Some (f (xs ! k))) (take k xs @ xs ! k # drop (Suc k) xs)
      = int (length (take k xs))"
    by (intro findIndex_first) auto
  then show ?thesis using xs assms(2) by simp
qed

lemma filter_after_nth:
  assumes "sorted (map f xs)" "distinct (map f xs)" "k < length xs"
  shows "filter (\<lambda>m. f (xs ! k) < f m) xs = drop (Suc k) xs"
proof -
  have le: "\<forall>y\<in>set (take (Suc k) xs). \<not> f (xs ! k) < f y"
  proof
    fix y assume "y \<in> set (take (Suc k) xs)"
    then obtain i where i: "i \<le> k" "y = xs ! i"
      using assms(3) by (auto simp: in_set_conv_nth less_Suc_eq_le)
    then have "map f xs ! i \<le> map f xs ! k"
      using assms by (intro sorted_nth_mono) auto
    then show "\<not> f (xs ! k) < f y" using i assms(3) by auto
  qed
  have gt: "\<forall>y\<in>set (drop (Suc k) xs). f (xs ! k) < f y"
  proof
    fix y assume "y \<in> set (drop (Suc k) xs)"
    then obtain j where j: "j < length xs - Suc k" "y = drop (Suc k) xs ! j"
      by (auto simp: in_set_conv_nth)
    define i where "i = Suc k + j"
    have i: "k < i" "i < length xs" "y = xs ! i"
      using j assms(3) by (simp_all add: i_def)
    have "sorted_wrt (<) (map f xs)" using assms by (simp add: strict_sorted_iff)
    then have "map f xs ! k < map f xs ! i"
      using i by (intro sorted_wrt_nth_less) auto
    then show "f (xs ! k) < f y" using i by simp
  qed
  have "filter (\<lambda>m. f (xs ! k) < f m) (take (Suc k) xs @ drop (Suc k) xs) = drop (Suc k) xs"
    unfolding filter_append using le gt by (simp add: filter_empty_conv filter_id_conv)
  then show ?thesis by simp
qed

lemma set_newSet_aux:
  "set (fold (\<lambda>x s. if x \<in> set s then s else s @ [x]) xs acc) = set xs \<union> set acc"
  by (induction xs arbitrary: acc) auto

lemma set_newSet: "set (newSet xs) = set xs"
  by (simp add: newSet_def set_newSet_aux)

lemma runEach_append:
  "runEach db (xs @ ys) w =
     (case runEach db xs w of (Inl e, w') \<Rightarrow> (Inl e, w') | (Inr u, w') \<Rightarrow> runEach db ys w')"
  by (induction xs arbitrary: w) (auto split: prod.splits sum.splits)

lemma sorted_last_Max:
  assumes "sorted xs" "xs \<noteq> []"
  shows "last xs = Max (set xs)"
proof -
  have xs: "xs = butlast xs @ [last xs]" using assms(2) by simp
  have "sorted (butlast xs @ [last xs])" using assms(1) xs by simp
  then have "\<forall>y\<in>set (butlast xs). y \<le> last xs"
    by (simp add: sorted_append)
  then have "\<forall>y\<in>set xs. y \<le> last xs"
    using xs by (metis Un_iff insert_iff list.set(2) order_refl set_append empty_iff empty_set)
  then show ?thesis
    using assms(2) by (intro Max_eqI[symmetric]) auto
qed

lemma ensure_same:
  "set old = set executed \<Longrightarrow> ensureMigrationsAreNotCorrupted executed old = Inr ()"
  by (simp add: ensureMigrationsAreNotCorrupted_def Let_def set_newSet find_None_iff
           split: option.splits)

lemma slice_take: "k \<le> length xs \<Longrightarrow> slice 0 (int k) xs = take k xs"
  by (simp add: slice_def sliceIndex_def)

lemma sliceFrom_drop: "sliceFrom (int k) xs = drop k xs"
  by (simp add: sliceFrom_def sliceIndex_def min_def)

lemma findIndex_found:
  "findIndex p xs \<noteq> - 1 \<Longrightarrow> \<exists>j<length xs. findIndex p xs = int j \<and> p (xs ! j)"
proof (induction xs)
  case Nil
  then show ?case by simp
next
  case (Cons a xs)
  show ?case
  proof (cases "p a")
    case True
    then show ?thesis by (intro exI[of _ 0]) simp
  next
    case False
    with Cons.prems have "findIndex p xs \<noteq> - 1" by (auto simp: Let_def split: if_splits)
    then obtain j where "j < length xs" "findIndex p xs = int j" "p (xs ! j)"
      using Cons.IH by blast
    then show ?thesis using False by (intro exI[of _ "Suc j"]) (simp add: Let_def)
  qed
qed

lemma take_contains_le:
  assumes "sorted ns" "j < length ns" "n \<in> set ns" "n \<le> ns ! j"
  shows "n \<in> set (take (Suc j) ns)"
proof -
  obtain i where i: "i < length ns" "n = ns ! i" using assms(3) by (auto simp: in_set_conv_nth)
  show ?thesis
  proof (cases "i \<le> j")
    case True
    then have "take (Suc j) ns ! i = ns ! i" by simp
    moreover have "i < length (take (Suc j) ns)" using True assms(2) by simp
    ultimately show ?thesis using i(2) by (metis nth_mem)
  next
    case False
    then have "ns ! j \<le> ns ! i" using assms(1) i(1) by (intro sorted_nth_mono) auto
    then have "n = ns ! j" using assms(4) i(2) by simp
    moreover have "take (Suc j) ns ! j = ns ! j" by simp
    moreover have "j < length (take (Suc j) ns)" using assms(2) by simp
    ultimately show ?thesis by (metis nth_mem)
  qed
qed

lemma take_all_le:
  assumes "sorted ns" "j < length ns" "n \<in> set (take (Suc j) ns)"
  shows "n \<le> ns ! j"
proof -
  obtain i where i: "i < length (take (Suc j) ns)" "n = take (Suc j) ns ! i"
    using assms(3) by (auto simp: in_set_conv_nth)
  then have ij: "i \<le> j" by simp
  then have "n = ns ! i" using i(2) by simp
  moreover have "ns ! i \<le> ns ! j" using assms(1,2) ij by (intro sorted_nth_mono) auto
  ultimately show ?thesis by simp
qed

lemma ref_fields:
  "getTableMetadata ref = ref_getTableMetadata"
  "createTable ref = ref_createTable"
  "selectLockRow ref = ref_selectLockRow"
  "insertLockRow ref = ref_insertLockRow"
  "updateLock ref = ref_updateLock"
  "selectExecuted ref = ref_selectExecuted"
  "insertExecuted ref = ref_insertExecuted"
  "transaction ref = ref_transaction"
  "setTimeout ref = (\<lambda>millis w. w)"
  by (simp_all add: ref_def)

lemma orderedNames_props:
  "sorted (orderedNames ms)" "distinct (orderedNames ms)" "set (orderedNames ms) = fmdom' ms"
  by (simp_all add: orderedNames_def sorted_list_of_fset.rep_eq fmdom'_alt_def)

lemma sort_orderedNames: "sort (orderedNames ms) = orderedNames ms"
  by (simp add: sort_key_id_if_sorted orderedNames_props)

lemma fst_sortedMigrations: "map fst (sortedMigrations ms) = orderedNames ms"
  by (simp add: sortedMigrations_def orderedNames_def comp_def)

lemma fst_sorted_list_of_fmap: "map fst (sorted_list_of_fmap ms) = orderedNames ms"
  by (simp add: sorted_list_of_fmap_def orderedNames_def comp_def)

lemma sortedMigrations_spread:
  "sortedMigrations ms = map (apsnd spread) (sorted_list_of_fmap ms)"
  by (simp add: sortedMigrations_def sorted_list_of_fmap_def comp_def)

lemma orderedNames_of_list:
  "orderedNames (fmap_of_list xs) = sort (remdups (map fst xs))"
proof -
  have "orderedNames (fmap_of_list xs) = sorted_list_of_set (set (map fst xs))"
    by (simp add: orderedNames_def sorted_list_of_fset.rep_eq fset_of_list.rep_eq)
  then show ?thesis by (simp only: sorted_list_of_set_sort_remdups)
qed

lemma sorted_list_of_fmap_of_list:
  fixes xs :: "(name \<times> ('w, 'x) migration) list"
  shows "sorted_list_of_fmap (fmap_of_list xs)
     = map (\<lambda>k. (k, the (map_of xs k))) (sort (remdups (map fst xs)))"
  using orderedNames_of_list[of xs]
  by (simp add: sorted_list_of_fmap_def orderedNames_def fmlookup_of_list)

lemma sortedMigrations_of_list:
  fixes xs :: "(name \<times> ('w, 'x) migration) list"
  shows "sortedMigrations (fmap_of_list xs)
     = map (\<lambda>k. (k, spread (the (map_of xs k)))) (sort (remdups (map fst xs)))"
  using orderedNames_of_list[of xs]
  by (simp add: sortedMigrations_def orderedNames_def fmlookup_of_list)

lemma fmdom'_of_list: "fmdom' (fmap_of_list xs) = fst ` set xs"
  by (simp add: fmdom'_alt_def fset_of_list.rep_eq)

lemma runEach_applyInOrder:
  "\<forall>m\<in>set ms. ownUp (snd m) \<Longrightarrow>
   runEach db (map (apsnd spread) ms) w = applyInOrder db ms w"
proof (induction ms arbitrary: w)
  case Nil
  show ?case by (simp add: applyInOrder_def)
next
  case (Cons m ms)
  from Cons.prems have "ownUp (snd m)" by simp
  then have own: "up (spread (snd m)) = up (snd m)" by (simp add: spread_def)
  have rest: "\<And>w. runEach db (map (apsnd spread) ms) w = applyInOrder db ms w"
    using Cons by simp
  have tl: "\<And>w. applyInOrder db (m # ms) w
      = andThen (applyMigration db m) (\<lambda>_. applyInOrder db ms) w"
    by (simp add: applyInOrder_def)
  show ?case
    unfolding tl
    by (simp add: own rest applyMigration_def andThen_def split: prod.splits sum.splits)
qed

lemma validation_nonempty:
  assumes s: "sorted (map fst xs)" and d: "distinct (map fst xs)"
    and i1: "I1 (map fst xs) ledger" and ne: "ledger \<noteq> []"
  shows "getLast (sort ledger) = Some (Max (set ledger))"
    and "lastExecutedIndex xs (getLast (sort ledger)) = int (length ledger) - 1"
    and "length ledger \<le> length xs"
    and "take (length ledger) (map fst xs) = sort ledger"
    and "filter (\<lambda>m. Max (set ledger) < fst m) xs = drop (length ledger) xs"
proof -
  let ?k = "length ledger"
  have ss: "sort (map fst xs) = map fst xs" using s by (simp add: sort_key_id_if_sorted)
  obtain zs where zs: "map fst xs = sort ledger @ zs"
    using i1 by (auto simp: I1_def prefix_def ss)
  have "length (sort ledger @ zs) = length xs" using zs by (metis length_map)
  then show k: "?k \<le> length xs" by simp
  show tk: "take ?k (map fst xs) = sort ledger" using zs by simp
  have kpos: "0 < ?k" using ne by simp
  have sne: "sort ledger \<noteq> []" using ne by (metis length_0_conv length_sort)
  have km: "?k - 1 < length xs" using k kpos by arith
  have ik: "int (?k - 1) = int ?k - 1" using kpos by arith
  have sk: "Suc (?k - 1) = ?k" using kpos by arith
  have "last (sort ledger) = sort ledger ! (?k - 1)"
    using last_conv_nth[OF sne] by simp
  also have "\<dots> = map fst xs ! (?k - 1)"
    using kpos by (simp add: zs nth_append)
  also have "\<dots> = fst (xs ! (?k - 1))" using km by (rule nth_map)
  finally have last: "last (sort ledger) = fst (xs ! (?k - 1))" .
  have mx: "last (sort ledger) = Max (set ledger)"
    using sorted_last_Max[of "sort ledger"] sne by simp
  show gl: "getLast (sort ledger) = Some (Max (set ledger))"
    using sne mx by (simp add: getLast_def)
  have "lastExecutedIndex xs (Some (fst (xs ! (?k - 1)))) = int (?k - 1)"
    unfolding lastExecutedIndex_def by (rule findIndex_nth[OF d km])
  then show "lastExecutedIndex xs (getLast (sort ledger)) = int ?k - 1"
    unfolding gl mx[symmetric] last ik .
  have "filter (\<lambda>m. fst (xs ! (?k - 1)) < fst m) xs = drop (Suc (?k - 1)) xs"
    by (rule filter_after_nth[OF s d km])
  then show "filter (\<lambda>m. Max (set ledger) < fst m) xs = drop ?k xs"
    unfolding sk last[symmetric] mx .
qed

lemma validation_passes:
  assumes s: "sorted (map fst xs)" and d: "distinct (map fst xs)"
    and i1: "I1 (map fst xs) ledger"
  shows "\<not> (getLast (sort ledger) \<noteq> None \<and> lastExecutedIndex xs (getLast (sort ledger)) = - 1)"
    and "set (map fst (oldMigrations xs (getLast (sort ledger)))) = set (sort ledger)"
    and "newMigrations xs (getLast (sort ledger))
           = filter (\<lambda>m. ledger = [] \<or> Max (set ledger) < fst m) xs"
proof -
  show "\<not> (getLast (sort ledger) \<noteq> None \<and> lastExecutedIndex xs (getLast (sort ledger)) = - 1)"
  proof (cases "ledger = []")
    case True
    then show ?thesis by (simp add: getLast_def)
  next
    case False
    from validation_nonempty(2)[OF s d i1 False] False show ?thesis by (cases ledger) auto
  qed
  show "set (map fst (oldMigrations xs (getLast (sort ledger)))) = set (sort ledger)"
  proof (cases "ledger = []")
    case True
    then show ?thesis by (simp add: getLast_def oldMigrations_def)
  next
    case False
    note v = validation_nonempty[OF s d i1 False]
    have "oldMigrations xs (getLast (sort ledger)) = take (length ledger) xs"
      using v(1,2,3) by (simp add: oldMigrations_def slice_take)
    moreover have "map fst (take (length ledger) xs) = sort ledger"
      using v(4) by (simp add: take_map)
    ultimately show ?thesis by simp
  qed
  show "newMigrations xs (getLast (sort ledger))
           = filter (\<lambda>m. ledger = [] \<or> Max (set ledger) < fst m) xs"
  proof (cases "ledger = []")
    case True
    then show ?thesis by (simp add: getLast_def newMigrations_def)
  next
    case False
    note v = validation_nonempty[OF s d i1 False]
    show ?thesis using v(1,2,5) False by (simp add: newMigrations_def sliceFrom_drop)
  qed
qed

lemma sortedMigrations_names:
  "sorted (map fst (sortedMigrations ms))" "distinct (map fst (sortedMigrations ms))"
  by (simp_all only: fst_sortedMigrations orderedNames_props)

lemma new_eq_pending:
  assumes "I1 (orderedNames ms) ledger"
  shows "newMigrations (sortedMigrations ms) (getLast (sort ledger))
           = map (apsnd spread) (pendingMigrations ms ledger)"
proof -
  have i: "I1 (map fst (sortedMigrations ms)) ledger"
    using assms by (simp only: fst_sortedMigrations)
  have "newMigrations (sortedMigrations ms) (getLast (sort ledger))
      = filter (\<lambda>m. ledger = [] \<or> Max (set ledger) < fst m) (sortedMigrations ms)"
    by (rule validation_passes(3)[OF sortedMigrations_names i])
  also have "\<dots> = map (apsnd spread) (pendingMigrations ms ledger)"
    by (simp add: sortedMigrations_spread pendingMigrations_def filter_map comp_def)
  finally show ?thesis .
qed

lemma run_pure:
  assumes i1: "I1 (orderedNames ms) ledger"
    and sel: "selectExecuted db w = (Inr (sort ledger), w')"
  shows "runNewMigrations db ms w
           = runEach db (map (apsnd spread) (pendingMigrations ms ledger)) w'"
proof -
  have i: "I1 (map fst (sortedMigrations ms)) ledger"
    using i1 by (simp only: fst_sortedMigrations)
  note v = validation_passes[OF sortedMigrations_names i]
  show ?thesis
    using sel v(1)
    by (auto simp: runNewMigrations_def andThen_def Let_def ensure_same[OF v(2)]
          new_eq_pending[OF i1])
qed

lemma pending_names:
  assumes "I1 (orderedNames ms) ledger"
  shows "sort ledger @ map fst (pendingMigrations ms ledger) = orderedNames ms"
proof (cases "ledger = []")
  case True
  then show ?thesis
    by (simp add: pendingMigrations_def fst_sorted_list_of_fmap)
next
  case False
  let ?xs = "sorted_list_of_fmap ms"
  have n: "map fst ?xs = orderedNames ms" by (rule fst_sorted_list_of_fmap)
  have s: "sorted (map fst ?xs)" and d: "distinct (map fst ?xs)"
    by (simp_all only: n orderedNames_props)
  have i: "I1 (map fst ?xs) ledger" using assms by (simp only: n)
  note v = validation_nonempty[OF s d i False]
  have "pendingMigrations ms ledger = drop (length ledger) ?xs"
    using False v(5) by (simp add: pendingMigrations_def)
  then have "map fst (pendingMigrations ms ledger) = drop (length ledger) (map fst ?xs)"
    by (simp add: drop_map)
  then have "sort ledger @ map fst (pendingMigrations ms ledger)
      = take (length ledger) (map fst ?xs) @ drop (length ledger) (map fst ?xs)"
    by (simp only: v(4))
  then show ?thesis by (simp only: append_take_drop_id n)
qed

lemma pending_not_in_ledger:
  assumes "m \<in> set (pendingMigrations ms ledger)"
  shows "fst m \<notin> set ledger"
proof
  assume in_l: "fst m \<in> set ledger"
  then have ne: "ledger \<noteq> []" by auto
  from assms ne have "Max (set ledger) < fst m" by (simp add: pendingMigrations_def)
  moreover have "fst m \<le> Max (set ledger)" using in_l by simp
  ultimately show False by simp
qed

lemma distinct_pending: "distinct (map fst (pendingMigrations ms ledger))"
proof -
  have "distinct (map fst (sorted_list_of_fmap ms))"
    by (simp only: fst_sorted_list_of_fmap orderedNames_props)
  then show ?thesis unfolding pendingMigrations_def by (rule distinct_map_filter)
qed

lemma keepsLedger_up:
  "keepsLedger m \<Longrightarrow> call (up m) w = (r, w') \<Longrightarrow> migration_table w' = migration_table w"
  by (metis keepsLedger_def snd_conv)

lemma keepsLedger_spread: "keepsLedger m \<Longrightarrow> keepsLedger (spread m)"
  by (simp add: keepsLedger_def spread_def call_def)

lemma ledger_runEach:
  fixes r :: "'x error + unit"
  assumes "\<forall>m\<in>set l. keepsLedger (snd m)" "migration_table w = Some rows"
    "runEach ref l w = (r, w')"
  shows "\<exists>done. prefix done (map fst l) \<and> migration_table w' = Some (rows @ done)
           \<and> (r = Inr () \<longrightarrow> done = map fst l)"
  using assms
proof (induction l arbitrary: w rows)
  case Nil
  then show ?case by auto
next
  case (Cons m l)
  obtain r1 w1 where u: "call (up (snd m)) w = (r1, w1)" by (cases "call (up (snd m)) w")
  have t1: "migration_table w1 = Some rows"
    using keepsLedger_up[OF _ u] Cons.prems(1,2) by simp
  show ?case
  proof (cases r1)
    case (Inl e)
    then have "w' = w1" "r = Inl e" using Cons.prems(3) u by simp_all
    then show ?thesis using t1 by (intro exI[of _ "[]"]) simp
  next
    case (Inr u1)
    show ?thesis
    proof (cases "fst m \<in> set rows")
      case True
      then have "w' = w1" "r = Inl (DuplicateKey MIGRATION_TABLE (fst m))"
        using Cons.prems(3) u Inr t1 by (simp_all add: ref_fields ref_insertExecuted_def)
      then show ?thesis using t1 by (intro exI[of _ "[]"]) simp
    next
      case False
      let ?w2 = "w1\<lparr>migration_table := Some (rows @ [fst m])\<rparr>"
      have ins: "insertExecuted ref (fst m) w1 = (Inr () :: 'x error + unit, ?w2)"
        using False t1 by (simp add: ref_fields ref_insertExecuted_def)
      have rest: "runEach ref l ?w2 = (r, w')"
        using Cons.prems(3) u Inr ins by simp
      have "\<exists>done. prefix done (map fst l) \<and> migration_table w' = Some ((rows @ [fst m]) @ done)
           \<and> (r = Inr () \<longrightarrow> done = map fst l)"
        using Cons.prems(1) rest by (intro Cons.IH) simp_all
      then obtain d where d: "prefix d (map fst l)"
          "migration_table w' = Some ((rows @ [fst m]) @ d)" "r = Inr () \<longrightarrow> d = map fst l"
        by blast
      then show ?thesis by (intro exI[of _ "fst m # d"]) simp
    qed
  qed
qed

lemma last_found:
  assumes ne: "ledger \<noteq> []"
    and idx: "lastExecutedIndex xs (getLast (sort ledger)) \<noteq> - 1"
  shows "\<exists>j<length xs. map fst xs ! j = Max (set ledger) \<and>
           map fst (oldMigrations xs (getLast (sort ledger))) = take (Suc j) (map fst xs)"
proof -
  have sne: "sort ledger \<noteq> []" using ne by (metis length_0_conv length_sort)
  have mx: "last (sort ledger) = Max (set ledger)"
    using sorted_last_Max[of "sort ledger"] sne by simp
  have gl: "getLast (sort ledger) = Some (Max (set ledger))"
    using sne mx by (simp add: getLast_def)
  obtain j where j: "j < length xs"
      "findIndex (\<lambda>it. Some (fst it) = Some (Max (set ledger))) xs = int j"
      "fst (xs ! j) = Max (set ledger)"
    using findIndex_found[OF idx[unfolded lastExecutedIndex_def gl]] by auto
  have "map fst xs ! j = fst (xs ! j)" using j(1) by (rule nth_map)
  then have nj: "map fst xs ! j = Max (set ledger)" by (simp only: j(3))
  have "slice 0 (int j + 1) xs = take (Suc j) xs"
    using j(1) slice_take[of "Suc j" xs] by (simp add: add.commute)
  then have "oldMigrations xs (getLast (sort ledger)) = take (Suc j) xs"
    using j(2) by (simp add: oldMigrations_def gl lastExecutedIndex_def)
  then have "map fst (oldMigrations xs (getLast (sort ledger))) = take (Suc j) (map fst xs)"
    by (simp add: take_map)
  then show ?thesis using j(1) nj by blast
qed

lemmas run_defs = runNewMigrations_def andThen_def ref_fields ref_selectExecuted_def
  ref_insertExecuted_def sortedMigrations_of_list spread_def call_def getLast_def
  lastExecutedIndex_def oldMigrations_def newMigrations_def slice_def sliceFrom_def
  sliceIndex_def ensureMigrationsAreNotCorrupted_def newSet_def Let_def

lemmas spec_defs = pendingMigrations_def sorted_list_of_fmap_of_list orderedNames_of_list
  I1_def fmdom'_of_list

section \<open>The claims about the run\<close>

text \<open>
  Claim C1, as stated, fails on two inputs. A migration that is an instance of a
  class has its \<open>up\<close> on the prototype; the copy that \<open>sortedMigrations\<close>
  makes of it has no \<open>up\<close>, so the run throws a \<^verbatim>\<open>TypeError\<close> and applies
  nothing, where the claim has the migration applied. And a forward operation that
  deletes the rows of the ledger table leaves a successful run without the entry
  \<open>001_init\<close> that was executed before.
\<close>

theorem runNewMigrations_applies_pending_counterexample:
  "I1 (orderedNames instanceOnly) [] \<and>
   isMigration (asInstance (createsTable ''init'')) \<and>
   pendingMigrations instanceOnly [] = [(''001_init'', asInstance (createsTable ''init''))] \<and>
   applyInOrder ref (pendingMigrations instanceOnly []) (exampleDb [] [])
     = (Inr (), exampleDb [''001_init''] [''init'']) \<and>
   runNewMigrations ref instanceOnly (exampleDb [] [])
     = (Inl (TypeError ''migration.up is not a function''), exampleDb [] []) \<and>
   I1 (orderedNames wipingMigrations) [''001_init''] \<and>
   runNewMigrations ref wipingMigrations (exampleDb [''001_init''] [''init''])
     = (Inr (), exampleDb [''002_wipe''] [''init''])"
  by (simp add: run_defs spec_defs instanceOnly_def wipingMigrations_def asInstance_def
        isMigration_def isFunction_def wipesLedger_def
        applyInOrder_def applyMigration_def exampleDb_def createsTable_def
      del: fmap_of_list_simps)

text \<open>
  Claim C1, amended. For a ledger that satisfies I1, when every pending migration has
  its \<open>up\<close> as an own property, the run is the application, in ascending order of
  the names and each once, of the migrations whose names sort strictly after the last
  executed name (of all of them when the ledger is empty): for each, the call of its
  forward operation and then the insertion of its name. The run stops at the first
  error. When no forward operation of a pending migration changes the ledger table,
  the ledger after the run is the old ledger followed by the names applied, all the
  pending names when the run succeeds: the entries that were there are untouched.
\<close>

theorem runNewMigrations_applies_pending:
  fixes ms :: "('u database, 'x) migrations"
  assumes "migration_table w = Some ledger" "I1 (orderedNames ms) ledger"
    and "\<forall>m\<in>set (pendingMigrations ms ledger). ownUp (snd m)"
  shows "runNewMigrations ref ms w = applyInOrder ref (pendingMigrations ms ledger) w \<and>
    ((\<forall>m\<in>set (pendingMigrations ms ledger). keepsLedger (snd m)) \<longrightarrow>
       (\<forall>r w'. runNewMigrations ref ms w = (r, w') \<longrightarrow>
          (\<exists>done. prefix done (map fst (pendingMigrations ms ledger)) \<and>
             migration_table w' = Some (ledger @ done) \<and>
             (r = Inr () \<longrightarrow> done = map fst (pendingMigrations ms ledger)))))"
proof -
  let ?p = "pendingMigrations ms ledger"
  have sel: "selectExecuted ref w = (Inr (sort ledger) :: 'x error + name list, w)"
    using assms(1) by (simp add: ref_fields ref_selectExecuted_def)
  have run: "runNewMigrations ref ms w = runEach ref (map (apsnd spread) ?p) w"
    using assms(2) sel by (rule run_pure)
  show ?thesis
  proof (intro conjI impI allI)
    show "runNewMigrations ref ms w = applyInOrder ref ?p w"
      unfolding run using assms(3) by (rule runEach_applyInOrder)
  next
    fix r w'
    assume k: "\<forall>m\<in>set ?p. keepsLedger (snd m)" and res: "runNewMigrations ref ms w = (r, w')"
    have k': "\<forall>m\<in>set (map (apsnd spread) ?p). keepsLedger (snd m)"
      using k by (auto intro: keepsLedger_spread)
    have "\<exists>done. prefix done (map fst (map (apsnd spread) ?p)) \<and>
             migration_table w' = Some (ledger @ done) \<and>
             (r = Inr () \<longrightarrow> done = map fst (map (apsnd spread) ?p))"
      using k' assms(1) res[unfolded run] by (rule ledger_runEach)
    then show "\<exists>done. prefix done (map fst ?p) \<and>
             migration_table w' = Some (ledger @ done) \<and>
             (r = Inr () \<longrightarrow> done = map fst ?p)"
      by (simp add: comp_def)
  qed
qed

text \<open>
  The second scenario of the specification: \<open>001_init\<close> is executed, so
  \<open>002_users\<close> and then \<open>003_posts\<close> are applied.
\<close>

theorem runNewMigrations_applies_pending_witness:
  "I1 (orderedNames exampleMigrations) [''001_init''] \<and>
   list_all (\<lambda>m. ownUp (snd m)) (pendingMigrations exampleMigrations [''001_init'']) \<and>
   list_all (\<lambda>m. keepsLedger (snd m)) (pendingMigrations exampleMigrations [''001_init'']) \<and>
   runNewMigrations ref exampleMigrations (exampleDb [''001_init''] [''init''])
     = applyInOrder ref
         [(''002_users'', createsTable ''users''), (''003_posts'', createsTable ''posts'')]
         (exampleDb [''001_init''] [''init'']) \<and>
   runNewMigrations ref exampleMigrations (exampleDb [''001_init''] [''init''])
     = (Inr (), exampleDb [''001_init'', ''002_users'', ''003_posts'']
                  [''init'', ''users'', ''posts''])"
proof -
  have t: "migration_table (exampleDb [''001_init''] [''init'']) = Some [''001_init'']"
    by (simp add: exampleDb_def)
  have i: "I1 (orderedNames exampleMigrations) [''001_init'']"
    by (simp add: spec_defs exampleMigrations_def del: fmap_of_list_simps)
  have p: "pendingMigrations exampleMigrations [''001_init'']
     = [(''002_users'', createsTable ''users''), (''003_posts'', createsTable ''posts'')]"
    by (simp add: spec_defs exampleMigrations_def del: fmap_of_list_simps)
  have o: "\<forall>m\<in>set (pendingMigrations exampleMigrations [''001_init'']). ownUp (snd m)"
    unfolding p by (simp add: createsTable_def)
  have k: "\<forall>m\<in>set (pendingMigrations exampleMigrations [''001_init'']). keepsLedger (snd m)"
    unfolding p by (simp add: keepsLedger_def call_def createsTable_def)
  have o': "list_all (\<lambda>m. ownUp (snd m)) (pendingMigrations exampleMigrations [''001_init''])"
    using o by (simp only: list_all_iff)
  have k': "list_all (\<lambda>m. keepsLedger (snd m)) (pendingMigrations exampleMigrations [''001_init''])"
    using k by (simp only: list_all_iff)
  have a: "applyInOrder ref
         [(''002_users'', createsTable ''users''), (''003_posts'', createsTable ''posts'')]
         (exampleDb [''001_init''] [''init''])
     = (Inr () :: unit error + unit, exampleDb [''001_init'', ''002_users'', ''003_posts'']
                  [''init'', ''users'', ''posts''])"
    by (simp add: applyInOrder_def applyMigration_def andThen_def ref_fields call_def
          ref_insertExecuted_def exampleDb_def createsTable_def)
  have "runNewMigrations ref exampleMigrations (exampleDb [''001_init''] [''init''])
     = applyInOrder ref
         [(''002_users'', createsTable ''users''), (''003_posts'', createsTable ''posts'')]
         (exampleDb [''001_init''] [''init''])"
    using conjunct1[OF runNewMigrations_applies_pending[OF t i o]] unfolding p .
  with a i o' k' show ?thesis by simp
qed

text \<open>
  Claim C3. If the ledger holds a name that is not among the migrations, the run fails
  with the error that a previously executed migration is missing, for a name of the
  ledger that is not among the migrations, and the world is as it was: no forward
  operation has run and nothing was inserted.
\<close>

theorem missing_migration_rejected:
  fixes ms :: "('u database, 'x) migrations"
  assumes "migration_table w = Some ledger" "x \<in> set ledger" "x \<notin> fmdom' ms"
  shows "\<exists>n. n \<in> set ledger \<and> n \<notin> fmdom' ms \<and>
           runNewMigrations ref ms w = (Inl (Error (missingMessage n)), w)"
proof -
  let ?sm = "sortedMigrations ms" and ?E = "sort ledger"
  let ?ns = "orderedNames ms"
  have names: "map fst ?sm = ?ns" by (rule fst_sortedMigrations)
  have keys: "set ?ns = fmdom' ms" by (rule orderedNames_props)
  have srt: "sorted ?ns" by (rule orderedNames_props)
  have ne: "ledger \<noteq> []" using assms(2) by auto
  have sne: "?E \<noteq> []" using ne by (metis length_0_conv length_sort)
  have mx: "last ?E = Max (set ledger)" using sorted_last_Max[of ?E] sne by simp
  have gl: "getLast ?E = Some (Max (set ledger))" using sne mx by (simp add: getLast_def)
  have mxin: "Max (set ledger) \<in> set ledger" using ne by (intro Max_in) auto
  have sel: "selectExecuted ref w = (Inr ?E :: 'x error + name list, w)"
    using assms(1) by (simp add: ref_fields ref_selectExecuted_def)
  show ?thesis
  proof (cases "lastExecutedIndex ?sm (getLast ?E) = - 1")
    case True
    then have "\<forall>it\<in>set ?sm. fst it \<noteq> Max (set ledger)"
      by (simp add: lastExecutedIndex_def gl findIndex_none)
    then have "Max (set ledger) \<notin> set (map fst ?sm)" by auto
    then have "Max (set ledger) \<notin> fmdom' ms" unfolding names keys .
    moreover have "runNewMigrations ref ms w = (Inl (Error (missingMessage (Max (set ledger)))), w)"
      using sel True gl by (simp add: runNewMigrations_def andThen_def Let_def)
    ultimately show ?thesis using mxin by blast
  next
    case False
    obtain j where j: "j < length ?sm" "map fst ?sm ! j = Max (set ledger)"
      "map fst (oldMigrations ?sm (getLast ?E)) = take (Suc j) (map fst ?sm)"
      using last_found[OF ne False] by blast
    note j2 = j(2)[unfolded names] and j3 = j(3)[unfolded names]
    have jl: "j < length ?ns" using j(1) names by (metis length_map)
    let ?old = "map fst (oldMigrations ?sm (getLast ?E))"
    have "x \<notin> set ?old"
      using assms(3) unfolding j3 keys[symmetric] by (metis in_set_takeD)
    then have "\<exists>it\<in>set (newSet ?E). it \<notin> set (newSet ?old)"
      using assms(2) by (auto simp: set_newSet)
    then obtain it where it: "find (\<lambda>it. it \<notin> set (newSet ?old)) (newSet ?E) = Some it"
      by (cases "find (\<lambda>it. it \<notin> set (newSet ?old)) (newSet ?E)") (auto simp: find_None_iff)
    then have itp: "it \<in> set ledger" "it \<notin> set ?old"
      by (auto simp: find_Some_iff set_newSet dest: nth_mem)
    have "it \<notin> fmdom' ms"
    proof
      assume "it \<in> fmdom' ms"
      then have "it \<in> set ?ns" by (simp only: keys)
      moreover have "it \<le> ?ns ! j" using itp(1) j2 by simp
      ultimately have "it \<in> set (take (Suc j) ?ns)"
        using srt jl by (intro take_contains_le)
      then show False using itp(2) j3 by simp
    qed
    moreover have "runNewMigrations ref ms w = (Inl (Error (missingMessage it)), w)"
      using sel False it
      by (simp add: runNewMigrations_def andThen_def Let_def ensureMigrationsAreNotCorrupted_def)
    ultimately show ?thesis using itp(1) by blast
  qed
qed

text \<open>
  The third scenario of the specification: \<open>002_users\<close> was executed and is no
  longer among the migrations.
\<close>

theorem missing_migration_rejected_witness:
  "''002_users'' \<in> set [''001_init'', ''002_users''] \<and>
   ''002_users'' \<notin> fmdom' initOnly \<and>
   runNewMigrations ref initOnly (exampleDb [''001_init'', ''002_users''] [''init'', ''users''])
     = (Inl (Error (missingMessage ''002_users'')),
        exampleDb [''001_init'', ''002_users''] [''init'', ''users''])"
proof -
  let ?w = "exampleDb [''001_init'', ''002_users''] [''init'', ''users'']"
  have t: "migration_table ?w = Some [''001_init'', ''002_users'']" by (simp add: exampleDb_def)
  have x: "''002_users'' \<in> set [''001_init'', ''002_users'']" by simp
  have a: "''002_users'' \<notin> fmdom' initOnly" by (simp add: initOnly_def)
  from missing_migration_rejected[OF t x a] obtain n where n: "n \<in> set [''001_init'', ''002_users'']"
    "n \<notin> fmdom' initOnly"
    "runNewMigrations ref initOnly ?w = (Inl (Error (missingMessage n)), ?w)" by blast
  from n(1,2) have "n = ''002_users''" by (simp add: initOnly_def)
  with n(3) x a show ?thesis by simp
qed

text \<open>
  Claim C4, as stated, fails. With the ledger \<open>b\<close> and the only migration \<open>a\<close>,
  the migration \<open>a\<close> is unexecuted and sorts before the last executed name, but the
  run fails with the error that \<open>b\<close> is missing: the check for missing migrations
  comes first.
\<close>

theorem earlier_migration_counterexample:
  "''a'' \<in> fmdom' renamedEarlier \<and> ''a'' \<notin> set [''b''] \<and> ''a'' < Max (set [''b'']) \<and>
   runNewMigrations ref renamedEarlier (exampleDb [''b''] [''users''])
     = (Inl (Error (missingMessage ''b'')), exampleDb [''b''] [''users'']) \<and>
   runNewMigrations ref renamedEarlier (exampleDb [''b''] [''users''])
     \<noteq> (Inl (Error (beforeMessage ''a'')), exampleDb [''b''] [''users''])"
  by (simp add: run_defs fmdom'_of_list renamedEarlier_def exampleDb_def missingMessage_def
        beforeMessage_def del: fmap_of_list_simps)

text \<open>
  Claim C4, amended. If every name of the non-empty ledger is among the migrations and
  an unexecuted migration sorts before the last executed name, the run fails with the
  error that a new migration comes alphabetically before the last executed one, for
  such a migration, and the world is as it was.
\<close>

theorem earlier_migration_rejected:
  fixes ms :: "('u database, 'x) migrations"
  assumes "migration_table w = Some ledger" "ledger \<noteq> []" "set ledger \<subseteq> fmdom' ms"
    and "y \<in> fmdom' ms" "y \<notin> set ledger" "y < Max (set ledger)"
  shows "\<exists>n. n \<in> fmdom' ms \<and> n \<notin> set ledger \<and> n < Max (set ledger) \<and>
           runNewMigrations ref ms w = (Inl (Error (beforeMessage n)), w)"
proof -
  let ?sm = "sortedMigrations ms" and ?E = "sort ledger"
  let ?ns = "orderedNames ms"
  have names: "map fst ?sm = ?ns" by (rule fst_sortedMigrations)
  have keys: "set ?ns = fmdom' ms" by (rule orderedNames_props)
  have srt: "sorted ?ns" by (rule orderedNames_props)
  have ne: "ledger \<noteq> []" by (rule assms(2))
  have sne: "?E \<noteq> []" using ne by (metis length_0_conv length_sort)
  have mx: "last ?E = Max (set ledger)" using sorted_last_Max[of ?E] sne by simp
  have gl: "getLast ?E = Some (Max (set ledger))" using sne mx by (simp add: getLast_def)
  have mxin: "Max (set ledger) \<in> set ledger" using ne by (intro Max_in) auto
  have sel: "selectExecuted ref w = (Inr ?E :: 'x error + name list, w)"
    using assms(1) by (simp add: ref_fields ref_selectExecuted_def)
  have "Max (set ledger) \<in> set (map fst ?sm)"
    using mxin assms(3) unfolding names keys by blast
  then have "\<exists>it\<in>set ?sm. fst it = Max (set ledger)" by force
  then have idx: "lastExecutedIndex ?sm (getLast ?E) \<noteq> - 1"
    by (simp add: lastExecutedIndex_def gl findIndex_none)
  obtain j where j: "j < length ?sm" "map fst ?sm ! j = Max (set ledger)"
      "map fst (oldMigrations ?sm (getLast ?E)) = take (Suc j) (map fst ?sm)"
    using last_found[OF ne idx] by blast
  note j2 = j(2)[unfolded names] and j3 = j(3)[unfolded names]
  have jl: "j < length ?ns" using j(1) names by (metis length_map)
  let ?old = "map fst (oldMigrations ?sm (getLast ?E))"
  have all_old: "\<forall>it\<in>set ledger. it \<in> set ?old"
  proof
    fix it assume i: "it \<in> set ledger"
    then have "it \<in> set ?ns" using assms(3) keys by blast
    moreover have "it \<le> ?ns ! j" using i j2 by simp
    ultimately show "it \<in> set ?old" unfolding j3 using srt jl by (intro take_contains_le)
  qed
  then have f1: "find (\<lambda>it. it \<notin> set (newSet ?old)) (newSet ?E) = None"
    by (simp add: find_None_iff set_newSet)
  have "y \<in> set ?ns" using assms(4) keys by blast
  moreover have "y \<le> ?ns ! j" using assms(6) j2 by simp
  ultimately have "y \<in> set ?old" unfolding j3 using srt jl by (intro take_contains_le)
  then have "\<exists>it\<in>set (newSet ?old). it \<notin> set (newSet ?E)"
    using assms(5) by (auto simp: set_newSet)
  then obtain it where it: "find (\<lambda>it. it \<notin> set (newSet ?E)) (newSet ?old) = Some it"
    by (cases "find (\<lambda>it. it \<notin> set (newSet ?E)) (newSet ?old)") (auto simp: find_None_iff)
  then have itp: "it \<in> set ?old" "it \<notin> set ledger"
    by (auto simp: find_Some_iff set_newSet dest: nth_mem)
  have intake: "it \<in> set (take (Suc j) ?ns)" using itp(1) j3 by simp
  then have le: "it \<le> ?ns ! j" using srt jl by (intro take_all_le)
  have "it \<noteq> Max (set ledger)" using itp(2) mxin by auto
  then have lt: "it < Max (set ledger)" using le j2 by simp
  have key: "it \<in> fmdom' ms" using intake keys by (metis in_set_takeD)
  have "runNewMigrations ref ms w = (Inl (Error (beforeMessage it)), w)"
    using sel idx f1 it
    by (simp add: runNewMigrations_def andThen_def Let_def ensureMigrationsAreNotCorrupted_def)
  then show ?thesis using key itp(2) lt by blast
qed

text \<open>
  The fourth scenario of the specification: \<open>001_new\<close> was added after
  \<open>002_users\<close> had run.
\<close>

theorem earlier_migration_rejected_witness:
  "set [''002_users''] \<subseteq> fmdom' insertedBefore \<and>
   ''001_new'' \<in> fmdom' insertedBefore \<and> ''001_new'' \<notin> set [''002_users''] \<and>
   ''001_new'' < Max (set [''002_users'']) \<and>
   runNewMigrations ref insertedBefore (exampleDb [''002_users''] [''users''])
     = (Inl (Error (beforeMessage ''001_new'')), exampleDb [''002_users''] [''users''])"
proof -
  let ?w = "exampleDb [''002_users''] [''users'']"
  have t: "migration_table ?w = Some [''002_users'']" by (simp add: exampleDb_def)
  have ne: "[''002_users''] \<noteq> []" by simp
  have s: "set [''002_users''] \<subseteq> fmdom' insertedBefore" by (simp add: insertedBefore_def)
  have y: "''001_new'' \<in> fmdom' insertedBefore" by (simp add: insertedBefore_def)
  have u: "''001_new'' \<notin> set [''002_users'']" by simp
  have b: "''001_new'' < Max (set [''002_users''])" by simp
  from earlier_migration_rejected[OF t ne s y u b] obtain n where n: "n \<in> fmdom' insertedBefore"
    "n \<notin> set [''002_users'']"
    "runNewMigrations ref insertedBefore ?w = (Inl (Error (beforeMessage n)), ?w)" by blast
  from n(1,2) have "n = ''001_new''" by (simp add: insertedBefore_def)
  with n(3) s y u b show ?thesis by simp
qed

text \<open>
  Claim C5, as stated, fails. The forward operation of the only migration \<open>a\<close>
  writes the name \<open>zzz\<close> into the ledger table; the run succeeds and leaves the
  ledger \<open>zzz\<close>, \<open>a\<close>, which is not a prefix of the names of the migrations.
\<close>

theorem I1_preserved_counterexample:
  "I1 (orderedNames foreignEntry) [] \<and>
   runNewMigrations ref foreignEntry (exampleDb [] [])
     = (Inr (), exampleDb [''zzz'', ''a''] []) \<and>
   \<not> I1 (orderedNames foreignEntry) [''zzz'', ''a'']"
  by (simp add: run_defs spec_defs foreignEntry_def recordsName_def exampleDb_def
      del: fmap_of_list_simps)

text \<open>
  Claim C5, amended. Invariant I1 is preserved when no forward operation of a pending
  migration changes the ledger table: from a ledger that satisfies I1, a successful
  run leaves a ledger that satisfies I1 again; it holds exactly the names of the
  migrations.
\<close>

theorem I1_preserved:
  fixes ms :: "('u database, 'x) migrations"
  assumes "migration_table w = Some ledger" "I1 (orderedNames ms) ledger"
    and "\<forall>m\<in>set (pendingMigrations ms ledger). keepsLedger (snd m)"
    and "runNewMigrations ref ms w = (Inr (), w')"
  shows "\<exists>ledger'. migration_table w' = Some ledger' \<and> I1 (orderedNames ms) ledger' \<and>
           sort ledger' = orderedNames ms"
proof -
  let ?p = "pendingMigrations ms ledger"
  have sel: "selectExecuted ref w = (Inr (sort ledger) :: 'x error + name list, w)"
    using assms(1) by (simp add: ref_fields ref_selectExecuted_def)
  have run: "runNewMigrations ref ms w = runEach ref (map (apsnd spread) ?p) w"
    using assms(2) sel by (rule run_pure)
  have k': "\<forall>m\<in>set (map (apsnd spread) ?p). keepsLedger (snd m)"
    using assms(3) by (auto intro: keepsLedger_spread)
  obtain d where d: "migration_table w' = Some (ledger @ d)"
      "d = map fst (map (apsnd spread) ?p)"
    using ledger_runEach[OF k' assms(1) assms(4)[unfolded run]] by auto
  have d': "d = map fst ?p" using d(2) by (simp add: comp_def)
  have "mset (ledger @ map fst ?p) = mset (sort ledger @ map fst ?p)" by simp
  also have "\<dots> = mset (orderedNames ms)"
    by (simp only: pending_names[OF assms(2)])
  finally have "mset (orderedNames ms) = mset (ledger @ map fst ?p)" by simp
  then have "sort (ledger @ map fst ?p) = orderedNames ms"
    by (intro properties_for_sort) (simp_all add: orderedNames_props)
  then show ?thesis using d(1) d' by (simp add: I1_def sort_orderedNames)
qed

text \<open>
The run of the second scenario leaves the three names in the ledger.
\<close>

theorem I1_preserved_witness:
  "I1 (orderedNames exampleMigrations) [''001_init''] \<and>
   list_all (\<lambda>m. keepsLedger (snd m)) (pendingMigrations exampleMigrations [''001_init'']) \<and>
   runNewMigrations ref exampleMigrations (exampleDb [''001_init''] [''init''])
     = (Inr (), exampleDb [''001_init'', ''002_users'', ''003_posts'']
                  [''init'', ''users'', ''posts'']) \<and>
   I1 (orderedNames exampleMigrations) [''001_init'', ''002_users'', ''003_posts''] \<and>
   sort [''001_init'', ''002_users'', ''003_posts''] = orderedNames exampleMigrations"
proof -
  let ?w = "exampleDb [''001_init''] [''init'']"
  let ?w' = "exampleDb [''001_init'', ''002_users'', ''003_posts''] [''init'', ''users'', ''posts'']"
  have t: "migration_table ?w = Some [''001_init'']" by (simp add: exampleDb_def)
  have i: "I1 (orderedNames exampleMigrations) [''001_init'']"
    by (simp add: spec_defs exampleMigrations_def del: fmap_of_list_simps)
  have p: "pendingMigrations exampleMigrations [''001_init'']
     = [(''002_users'', createsTable ''users''), (''003_posts'', createsTable ''posts'')]"
    by (simp add: spec_defs exampleMigrations_def del: fmap_of_list_simps)
  have k: "\<forall>m\<in>set (pendingMigrations exampleMigrations [''001_init'']). keepsLedger (snd m)"
    unfolding p by (simp add: keepsLedger_def call_def createsTable_def)
  have k': "list_all (\<lambda>m. keepsLedger (snd m)) (pendingMigrations exampleMigrations [''001_init''])"
    using k by (simp only: list_all_iff)
  have r: "runNewMigrations ref exampleMigrations ?w = (Inr (), ?w')"
    by (simp add: run_defs exampleMigrations_def exampleDb_def createsTable_def
          del: fmap_of_list_simps)
  from I1_preserved[OF t i k r] obtain l where l: "migration_table ?w' = Some l"
    "I1 (orderedNames exampleMigrations) l" "sort l = orderedNames exampleMigrations" by blast
  from l(1) have le: "l = [''001_init'', ''002_users'', ''003_posts'']"
    by (simp add: exampleDb_def)
  note l2 = l(2)[unfolded le] and l3 = l(3)[unfolded le]
  from i k' r l2 l3 show ?thesis by blast
qed

text \<open>
  Claim C8, as stated, fails. The forward operation of the only migration \<open>a\<close>
  writes the name \<open>a\<close> into the ledger table itself; the ledger satisfies I1 at the
  start, the name is in the ledger when the loop inserts it, and the run fails with
  the duplicate-key error of the insertion.
\<close>

theorem insert_never_duplicate_counterexample:
  "I1 (orderedNames selfRecording) [] \<and>
   newMigrations (sortedMigrations selfRecording) (getLast (sort []))
     = [] @ (''a'', spread (recordsName ''a'')) # [] \<and>
   call (up (spread (recordsName ''a''))) (exampleDb [] []) = (Inr (), exampleDb [''a''] []) \<and>
   ''a'' \<in> set [''a''] \<and>
   insertExecuted ref ''a'' (exampleDb [''a''] [])
     = (Inl (DuplicateKey MIGRATION_TABLE ''a'') :: unit error + unit, exampleDb [''a''] []) \<and>
   runNewMigrations ref selfRecording (exampleDb [] [])
     = (Inl (DuplicateKey MIGRATION_TABLE ''a''), exampleDb [''a''] [])"
  by (simp add: run_defs spec_defs selfRecording_def recordsName_def exampleDb_def
      del: fmap_of_list_simps)

text \<open>
  Claim C8, amended. Under I1, when no forward operation of a pending migration
  changes the ledger table: at the moment the loop inserts the name of a new
  migration, after the migrations before it have been applied and its forward
  operation has run, the ledger is the old ledger followed by the names applied so
  far, the name is not in it, and the insertion succeeds. The duplicate-key failure of
  the insertion is not reached.
\<close>

theorem insert_never_duplicate:
  fixes ms :: "('u database, 'x) migrations"
  assumes "migration_table w = Some ledger" "I1 (orderedNames ms) ledger"
    and "\<forall>m\<in>set (pendingMigrations ms ledger). keepsLedger (snd m)"
    and "newMigrations (sortedMigrations ms) (getLast (sort ledger)) = pre @ m # post"
    and "runEach ref pre w = (Inr (), w1)"
    and "call (up (snd m)) w1 = (Inr (), w2)"
  shows "migration_table w2 = Some (ledger @ map fst pre) \<and>
         fst m \<notin> set (ledger @ map fst pre) \<and>
         insertExecuted ref (fst m) w2
           = (Inr () :: 'x error + unit,
              w2\<lparr>migration_table := Some (ledger @ map fst pre @ [fst m])\<rparr>)"
proof -
  let ?p = "pendingMigrations ms ledger"
  have p: "map (apsnd spread) ?p = pre @ m # post"
    using new_eq_pending[OF assms(2)] assms(4) by simp
  have kall: "\<forall>x\<in>set (map (apsnd spread) ?p). keepsLedger (snd x)"
    using assms(3) by (auto intro: keepsLedger_spread)
  have kpre: "\<forall>x\<in>set pre. keepsLedger (snd x)" and km: "keepsLedger (snd m)"
    using kall unfolding p by auto
  have t1: "migration_table w1 = Some (ledger @ map fst pre)"
    using ledger_runEach[OF kpre assms(1) assms(5)] by auto
  have t2: "migration_table w2 = Some (ledger @ map fst pre)"
    using keepsLedger_up[OF km assms(6)] t1 by simp
  have names: "map fst ?p = map fst (pre @ m # post)"
    using p by (metis (no_types, lifting) fst_apsnd map_map comp_def map_eq_conv)
  have "fst m \<in> set (map fst ?p)" unfolding names by simp
  then obtain m' where "m' \<in> set ?p" "fst m' = fst m" by auto
  then have n1: "fst m \<notin> set ledger" using pending_not_in_ledger by metis
  have "distinct (map fst (pre @ m # post))"
    using distinct_pending[of ms ledger] names by simp
  then have n2: "fst m \<notin> set (map fst pre)" by auto
  have n: "fst m \<notin> set (ledger @ map fst pre)" using n1 n2 by simp
  show ?thesis using t2 n by (simp add: ref_fields ref_insertExecuted_def)
qed

text \<open>
  In the second scenario, at the insertion of \<open>003_posts\<close> the ledger holds
  \<open>001_init\<close> and \<open>002_users\<close>.
\<close>

theorem insert_never_duplicate_witness:
  "I1 (orderedNames exampleMigrations) [''001_init''] \<and>
   list_all (\<lambda>m. keepsLedger (snd m)) (pendingMigrations exampleMigrations [''001_init'']) \<and>
   newMigrations (sortedMigrations exampleMigrations) (getLast (sort [''001_init'']))
     = [(''002_users'', spread (createsTable ''users''))]
       @ (''003_posts'', spread (createsTable ''posts'')) # [] \<and>
   runEach ref [(''002_users'', spread (createsTable ''users''))]
       (exampleDb [''001_init''] [''init''])
     = (Inr () :: unit error + unit,
        exampleDb [''001_init'', ''002_users''] [''init'', ''users'']) \<and>
   call (up (spread (createsTable ''posts'')))
       (exampleDb [''001_init'', ''002_users''] [''init'', ''users''])
     = (Inr (), exampleDb [''001_init'', ''002_users''] [''init'', ''users'', ''posts'']) \<and>
   ''003_posts''
     \<notin> set ([''001_init''] @ map fst [(''002_users'', spread (createsTable ''users''))]) \<and>
   insertExecuted ref ''003_posts''
       (exampleDb [''001_init'', ''002_users''] [''init'', ''users'', ''posts''])
     = (Inr () :: unit error + unit,
        exampleDb [''001_init'', ''002_users'', ''003_posts''] [''init'', ''users'', ''posts''])"
proof -
  let ?w = "exampleDb [''001_init''] [''init'']"
  let ?w1 = "exampleDb [''001_init'', ''002_users''] [''init'', ''users'']"
  let ?w2 = "exampleDb [''001_init'', ''002_users''] [''init'', ''users'', ''posts'']"
  let ?pre = "[(''002_users'', spread (createsTable ''users''))]"
  let ?m = "(''003_posts'', spread (createsTable ''posts''))"
  have t: "migration_table ?w = Some [''001_init'']" by (simp add: exampleDb_def)
  have i: "I1 (orderedNames exampleMigrations) [''001_init'']"
    by (simp add: spec_defs exampleMigrations_def del: fmap_of_list_simps)
  have p: "pendingMigrations exampleMigrations [''001_init'']
     = [(''002_users'', createsTable ''users''), (''003_posts'', createsTable ''posts'')]"
    by (simp add: spec_defs exampleMigrations_def del: fmap_of_list_simps)
  have k: "\<forall>m\<in>set (pendingMigrations exampleMigrations [''001_init'']). keepsLedger (snd m)"
    unfolding p by (simp add: keepsLedger_def call_def createsTable_def)
  have k': "list_all (\<lambda>m. keepsLedger (snd m)) (pendingMigrations exampleMigrations [''001_init''])"
    using k by (simp only: list_all_iff)
  have n: "newMigrations (sortedMigrations exampleMigrations) (getLast (sort [''001_init'']))
     = ?pre @ ?m # []"
    unfolding new_eq_pending[OF i] p by simp
  have r: "runEach ref ?pre ?w = (Inr () :: unit error + unit, ?w1)"
    by (simp add: ref_fields ref_insertExecuted_def exampleDb_def createsTable_def spread_def
          call_def)
  have u: "call (up (snd ?m)) ?w1 = (Inr (), ?w2)"
    by (simp add: exampleDb_def createsTable_def spread_def call_def)
  have e: "?w2\<lparr>migration_table := Some ([''001_init''] @ map fst ?pre @ [fst ?m])\<rparr>
      = exampleDb [''001_init'', ''002_users'', ''003_posts''] [''init'', ''users'', ''posts'']"
    by (simp add: exampleDb_def)
  from insert_never_duplicate[OF t i k n r u] i k' n r u e show ?thesis by simp
qed

section \<open>The lock\<close>

lemma acquireLock_after:
  assumes "\<forall>i<k. fst (tryAcquireLock db (afterRetries db 100 i w)) = Inr False"
  shows "acquireLock db w = acquireLock db (afterRetries db 100 k w)"
  using assms
proof (induction k arbitrary: w)
  case 0
  then show ?case by simp
next
  case (Suc k)
  from Suc.prems have f0: "fst (tryAcquireLock db w) = Inr False" by force
  then obtain w1 where t: "tryAcquireLock db w = (Inr False, w1)"
    by (cases "tryAcquireLock db w") auto
  have step: "acquireLock db w
      = acquireLock db (setTimeout db 100 (snd (tryAcquireLock db w)))"
    by (subst acquireLock.simps) (simp add: t sleep_def)
  have "\<forall>i<k. fst (tryAcquireLock db
      (afterRetries db 100 i (setTimeout db 100 (snd (tryAcquireLock db w))))) = Inr False"
    using Suc.prems by (metis Suc_less_eq afterRetries.simps(2))
  from Suc.IH[OF this] step show ?case by simp
qed

lemma acquireLock_done:
  "(case tryAcquireLock db w of
      (Inl e, w') \<Rightarrow> r = (Inl e, w')
    | (Inr acquired, w') \<Rightarrow> acquired \<and> r = (Inr (), w'))
   \<Longrightarrow> acquireLock db w = Some r"
  by (subst acquireLock.simps) (auto split: prod.splits sum.splits)

lemma acquireLock_returns:
  fixes db :: "('w, 'x, 'm) kysely"
  assumes "acquireLock db w = Some r"
  shows "\<exists>k. (\<forall>i<k. fst (tryAcquireLock db (afterRetries db 100 i w)) = Inr False) \<and>
           (case tryAcquireLock db (afterRetries db 100 k w) of
              (Inl e, w') \<Rightarrow> r = (Inl e, w')
            | (Inr acquired, w') \<Rightarrow> acquired \<and> r = (Inr (), w'))"
proof (rule acquireLock.raw_induct[where P = "\<lambda>db w r.
         \<exists>k. (\<forall>i<k. fst (tryAcquireLock db (afterRetries db 100 i w)) = Inr False) \<and>
           (case tryAcquireLock db (afterRetries db 100 k w) of
              (Inl e, w') \<Rightarrow> r = (Inl e, w')
            | (Inr acquired, w') \<Rightarrow> acquired \<and> r = (Inr (), w'))", OF _ assms])
  fix f :: "('w, 'x, 'm) kysely \<Rightarrow> 'w \<Rightarrow> (('x error + unit) \<times> 'w) option"
  fix db :: "('w, 'x, 'm) kysely" and w :: 'w and r :: "('x error + unit) \<times> 'w"
  assume IH: "\<And>d v y. f d v = Some y \<Longrightarrow>
         \<exists>k. (\<forall>i<k. fst (tryAcquireLock d (afterRetries d 100 i v)) = Inr False) \<and>
           (case tryAcquireLock d (afterRetries d 100 k v) of
              (Inl e, w') \<Rightarrow> y = (Inl e, w')
            | (Inr acquired, w') \<Rightarrow> acquired \<and> y = (Inr (), w'))"
  assume eq: "(case tryAcquireLock db w of
        (Inl e, w') \<Rightarrow> Some (Inl e, w')
      | (Inr acquired, w') \<Rightarrow>
          if \<not> acquired then f db (sleep db 100 w') else Some (Inr (), w')) = Some r"
  obtain a w1 where t: "tryAcquireLock db w = (a, w1)" by (cases "tryAcquireLock db w")
  show "\<exists>k. (\<forall>i<k. fst (tryAcquireLock db (afterRetries db 100 i w)) = Inr False) \<and>
           (case tryAcquireLock db (afterRetries db 100 k w) of
              (Inl e, w') \<Rightarrow> r = (Inl e, w')
            | (Inr acquired, w') \<Rightarrow> acquired \<and> r = (Inr (), w'))"
  proof (cases a)
    case (Inl e)
    have "r = (Inl e, w1)" using eq unfolding t Inl by simp
    then have "case tryAcquireLock db (afterRetries db 100 0 w) of
              (Inl e, w') \<Rightarrow> r = (Inl e, w')
            | (Inr acquired, w') \<Rightarrow> acquired \<and> r = (Inr (), w')"
      unfolding afterRetries.simps t Inl by simp
    then show ?thesis by (intro exI[of _ 0] conjI) simp_all
  next
    case (Inr acquired)
    show ?thesis
    proof (cases acquired)
      case True
      have "r = (Inr (), w1)" using eq True unfolding t Inr by simp
      then have "case tryAcquireLock db (afterRetries db 100 0 w) of
              (Inl e, w') \<Rightarrow> r = (Inl e, w')
            | (Inr acquired, w') \<Rightarrow> acquired \<and> r = (Inr (), w')"
        using True unfolding afterRetries.simps t Inr by simp
      then show ?thesis by (intro exI[of _ 0] conjI) simp_all
    next
      case False
      have "f db (setTimeout db 100 w1) = Some r"
        using eq False unfolding t Inr by (simp add: sleep_def)
      from IH[OF this] obtain k where
        k12: "(\<forall>i<k. fst (tryAcquireLock db (afterRetries db 100 i (setTimeout db 100 w1))) = Inr False) \<and>
          (case tryAcquireLock db (afterRetries db 100 k (setTimeout db 100 w1)) of
              (Inl e, w') \<Rightarrow> r = (Inl e, w')
            | (Inr acquired, w') \<Rightarrow> acquired \<and> r = (Inr (), w'))" ..
      note k1 = conjunct1[OF k12] and k2 = conjunct2[OF k12]
      have shift: "\<And>i. afterRetries db 100 (Suc i) w = afterRetries db 100 i (setTimeout db 100 w1)"
        by (simp add: t)
      have a: "\<forall>i<Suc k. fst (tryAcquireLock db (afterRetries db 100 i w)) = Inr False"
      proof (intro allI impI)
        fix i assume lt: "i < Suc k"
        show "fst (tryAcquireLock db (afterRetries db 100 i w)) = Inr False"
        proof (cases i)
          case 0
          then show ?thesis by (simp add: t Inr False)
        next
          case (Suc j)
          then have "j < k" using lt by simp
          then show ?thesis unfolding Suc shift using k1 by simp
        qed
      qed
      have b: "(case tryAcquireLock db (afterRetries db 100 (Suc k) w) of
              (Inl e, w') \<Rightarrow> r = (Inl e, w')
            | (Inr acquired, w') \<Rightarrow> acquired \<and> r = (Inr (), w'))"
        unfolding shift by (rule k2)
      show ?thesis by (rule exI[of _ "Suc k"]) (rule conjI[OF a b])
    qed
  qed
qed

lemma heldUntil_try:
  "tryAcquireLock (heldUntil t) now = (Inr (t \<le> now), now)"
  by (simp add: tryAcquireLock_def andThen_def heldUntil_def)

lemma heldUntil_timer: "setTimeout (heldUntil t) millis now = now + millis"
  by (simp add: heldUntil_def)

lemma stale_try: "tryAcquireLock ref staleLockDb = (Inr False, staleLockDb)"
  by (simp add: tryAcquireLock_def andThen_def ref_fields ref_updateLock_def staleLockDb_def
        lockRowMatches_def)

lemma stale_after: "afterRetries ref millis k staleLockDb = staleLockDb"
  by (induction k) (simp_all add: stale_try ref_fields)

text \<open>
  Claim C6. One attempt is the update of \<open>is_locked\<close> to 1 where \<open>is_locked\<close>
  is 0 and the id is the lock id, and it succeeds exactly when one row was updated.
  \<open>acquireLock\<close> returns exactly when, after some number \<open>k\<close> of failed attempts,
  each followed by a wait of 100 milliseconds, an attempt succeeds (or throws, and the
  error is passed on); it returns the world of that attempt. The number of attempts has
  no bound: when every attempt fails, \<open>acquireLock\<close> does not return.
\<close>

theorem acquireLock_retries:
  fixes db :: "('w, 'x, 'm) kysely"
  shows "tryAcquireLock db w =
     (case updateLock db 1 (Some 0) MIGRATION_LOCK_ID w of
        (Inl e, w') \<Rightarrow> (Inl e, w')
      | (Inr numUpdatedRows, w') \<Rightarrow> (Inr (numUpdatedRows = 1), w')) \<and>
   (acquireLock db w = Some r \<longleftrightarrow>
     (\<exists>k. (\<forall>i<k. fst (tryAcquireLock db (afterRetries db 100 i w)) = Inr False) \<and>
          (case tryAcquireLock db (afterRetries db 100 k w) of
             (Inl e, w') \<Rightarrow> r = (Inl e, w')
           | (Inr acquired, w') \<Rightarrow> acquired \<and> r = (Inr (), w')))) \<and>
   ((\<forall>k. fst (tryAcquireLock db (afterRetries db 100 k w)) = Inr False)
      \<longrightarrow> acquireLock db w = None)"
proof (intro conjI iffI impI)
  show "tryAcquireLock db w =
     (case updateLock db 1 (Some 0) MIGRATION_LOCK_ID w of
        (Inl e, w') \<Rightarrow> (Inl e, w')
      | (Inr numUpdatedRows, w') \<Rightarrow> (Inr (numUpdatedRows = 1), w'))"
    by (simp add: tryAcquireLock_def andThen_def split: prod.splits sum.splits)
next
  assume "acquireLock db w = Some r"
  then show "\<exists>k. (\<forall>i<k. fst (tryAcquireLock db (afterRetries db 100 i w)) = Inr False) \<and>
          (case tryAcquireLock db (afterRetries db 100 k w) of
             (Inl e, w') \<Rightarrow> r = (Inl e, w')
           | (Inr acquired, w') \<Rightarrow> acquired \<and> r = (Inr (), w'))"
    by (rule acquireLock_returns)
next
  assume "\<exists>k. (\<forall>i<k. fst (tryAcquireLock db (afterRetries db 100 i w)) = Inr False) \<and>
          (case tryAcquireLock db (afterRetries db 100 k w) of
             (Inl e, w') \<Rightarrow> r = (Inl e, w')
           | (Inr acquired, w') \<Rightarrow> acquired \<and> r = (Inr (), w'))"
  then obtain k where k: "(\<forall>i<k. fst (tryAcquireLock db (afterRetries db 100 i w)) = Inr False) \<and>
    (case tryAcquireLock db (afterRetries db 100 k w) of
             (Inl e, w') \<Rightarrow> r = (Inl e, w')
           | (Inr acquired, w') \<Rightarrow> acquired \<and> r = (Inr (), w'))" ..
  have "acquireLock db w = acquireLock db (afterRetries db 100 k w)"
    by (rule acquireLock_after[OF conjunct1[OF k]])
  also have "\<dots> = Some r" by (rule acquireLock_done[OF conjunct2[OF k]])
  finally show "acquireLock db w = Some r" .
next
  assume never: "\<forall>k. fst (tryAcquireLock db (afterRetries db 100 k w)) = Inr False"
  show "acquireLock db w = None"
  proof (cases "acquireLock db w")
    case None
    then show ?thesis .
  next
    case (Some r)
    from acquireLock_returns[OF this] obtain k where
      k: "(\<forall>i<k. fst (tryAcquireLock db (afterRetries db 100 i w)) = Inr False) \<and>
       (case tryAcquireLock db (afterRetries db 100 k w) of
             (Inl e, w') \<Rightarrow> r = (Inl e, w')
           | (Inr acquired, w') \<Rightarrow> acquired \<and> r = (Inr (), w'))" ..
    obtain a w1 where t: "tryAcquireLock db (afterRetries db 100 k w) = (a, w1)"
      by (cases "tryAcquireLock db (afterRetries db 100 k w)")
    from never have "fst (tryAcquireLock db (afterRetries db 100 k w)) = Inr False" ..
    then have a: "a = Inr False" unfolding t by simp
    from conjunct2[OF k] have False unfolding t a by simp
    then show ?thesis ..
  qed
qed

text \<open>
  The lock is held until the time 250: three attempts fail, at 0, 100 and 200, and the
  fourth succeeds at 300. With a lock that is never released the call does not return.
\<close>

theorem acquireLock_retries_witness:
  "fst (tryAcquireLock (heldUntil 250) 0) = Inr False \<and>
   fst (tryAcquireLock (heldUntil 250) 100) = Inr False \<and>
   fst (tryAcquireLock (heldUntil 250) 200) = Inr False \<and>
   tryAcquireLock (heldUntil 250) 300 = (Inr True, 300) \<and>
   acquireLock (heldUntil 250) 0 = Some (Inr (), 300) \<and>
   acquireLock (ref :: (string list database, unit, string) kysely) staleLockDb = None"
proof -
  let ?db = "heldUntil 250"
  have a0: "afterRetries ?db 100 0 0 = 0" by simp
  have a1: "afterRetries ?db 100 (Suc 0) 0 = 100" by (simp add: heldUntil_try heldUntil_timer)
  have a2: "afterRetries ?db 100 (Suc (Suc 0)) 0 = 200" by (simp add: heldUntil_try heldUntil_timer)
  have a3: "afterRetries ?db 100 (Suc (Suc (Suc 0))) 0 = 300" by (simp add: heldUntil_try heldUntil_timer)
  have fails: "\<forall>i<Suc (Suc (Suc 0)). fst (tryAcquireLock ?db (afterRetries ?db 100 i 0)) = Inr False"
    unfolding less_Suc_eq using a0 a1 a2 by (auto simp: heldUntil_try)
  have wins: "(case tryAcquireLock ?db (afterRetries ?db 100 (Suc (Suc (Suc 0))) 0) of
             (Inl e, w') \<Rightarrow> (Inr (), 300) = (Inl e, w')
           | (Inr acquired, w') \<Rightarrow> acquired \<and> (Inr (), 300) = (Inr (), w'))"
    unfolding a3 by (simp add: heldUntil_try)
  have ex: "\<exists>k. (\<forall>i<k. fst (tryAcquireLock ?db (afterRetries ?db 100 i 0)) = Inr False) \<and>
          (case tryAcquireLock ?db (afterRetries ?db 100 k 0) of
             (Inl e, w') \<Rightarrow> (Inr (), 300) = (Inl e, w')
           | (Inr acquired, w') \<Rightarrow> acquired \<and> (Inr (), 300) = (Inr (), w'))"
    by (rule exI[of _ "Suc (Suc (Suc 0))"]) (rule conjI[OF fails wins])
  note c = acquireLock_retries[of ?db 0 "(Inr (), 300)"]
  have acq: "acquireLock ?db 0 = Some (Inr (), 300)"
    using conjunct1[OF conjunct2[OF c]] ex by (rule iffD2)
  have never: "\<forall>k. fst (tryAcquireLock (ref :: (string list database, unit, string) kysely)
                        (afterRetries ref 100 k staleLockDb)) = Inr False"
    by (simp add: stale_after stale_try)
  note s = acquireLock_retries[of "ref :: (string list database, unit, string) kysely" staleLockDb]
  have stale: "acquireLock (ref :: (string list database, unit, string) kysely) staleLockDb = None"
    using conjunct2[OF conjunct2[OF s]] never by (rule mp)
  show ?thesis using acq stale by (simp add: heldUntil_try)
qed

section \<open>The bootstrap\<close>

lemma raceTolerant_step:
  assumes "\<And>w. step w =
     andThen exists (\<lambda>there w.
       if \<not> there then
         (case create w of
            (Inr u, w') \<Rightarrow> (Inr (), w')
          | (Inl error, w') \<Rightarrow>
              andThen exists (\<lambda>there' w''.
                if \<not> there' then (Inl error, w'') else (Inr (), w'')) w')
       else (Inr (), w)) w"
  shows "raceTolerant exists create step"
  unfolding raceTolerant_def
proof (intro conjI allI impI)
  fix w w1 assume "exists w = (Inr True, w1)"
  then show "step w = (Inr (), w1)" by (simp add: assms andThen_def)
next
  fix w w1 w2 assume "exists w = (Inr False, w1) \<and> create w1 = (Inr (), w2)"
  then show "step w = (Inr (), w2)" by (simp add: assms andThen_def)
next
  fix w w1 e w2 w3
  assume "exists w = (Inr False, w1) \<and> create w1 = (Inl e, w2) \<and> exists w2 = (Inr True, w3)"
  then show "step w = (Inr (), w3)" by (simp add: assms andThen_def)
next
  fix w w1 e w2 w3
  assume "exists w = (Inr False, w1) \<and> create w1 = (Inl e, w2) \<and> exists w2 = (Inr False, w3)"
  then show "step w = (Inl e, w3)" by (simp add: assms andThen_def)
qed

text \<open>
  Claim C7. Each of the three bootstrap steps (the migration table, the lock table,
  the lock row with the lock id) checks existence first and does nothing more when the
  object exists; when the creation fails it checks again, and succeeds if the object
  exists now, and passes the failure of the creation on otherwise.
\<close>

theorem bootstrap_race_tolerant:
  fixes db :: "('w, 'x, 'm) kysely"
  shows
  "raceTolerant (doesTableExists db MIGRATION_TABLE)
     (createTable db MIGRATION_TABLE [StringColumn ''name'' True])
     (ensureMigrationTableExists db) \<and>
   raceTolerant (doesTableExists db MIGRATION_LOCK_TABLE)
     (createTable db MIGRATION_LOCK_TABLE
        [StringColumn ''id'' True, IntegerColumn ''is_locked'' True (Some 0)])
     (ensureMigrationLockTableExists db) \<and>
   raceTolerant (doesLockRowExists db)
     (insertLockRow db MIGRATION_LOCK_ID)
     (ensureLockRowExists db)"
proof (intro conjI)
  show "raceTolerant (doesTableExists db MIGRATION_TABLE)
     (createTable db MIGRATION_TABLE [StringColumn ''name'' True])
     (ensureMigrationTableExists db)"
    by (rule raceTolerant_step) (simp add: ensureMigrationTableExists_def)
  show "raceTolerant (doesTableExists db MIGRATION_LOCK_TABLE)
     (createTable db MIGRATION_LOCK_TABLE
        [StringColumn ''id'' True, IntegerColumn ''is_locked'' True (Some 0)])
     (ensureMigrationLockTableExists db)"
    by (rule raceTolerant_step) (simp add: ensureMigrationLockTableExists_def)
  show "raceTolerant (doesLockRowExists db)
     (insertLockRow db MIGRATION_LOCK_ID)
     (ensureLockRowExists db)"
    by (rule raceTolerant_step) (simp add: ensureLockRowExists_def)
qed

text \<open>
  A creation that fails because another process was faster is a success; a creation
  that fails and leaves nothing is the failure of the step.
\<close>

theorem bootstrap_race_tolerant_witness:
  "doesTableExists (racing True) MIGRATION_TABLE False = (Inr False, False) \<and>
   createTable (racing True) MIGRATION_TABLE [StringColumn ''name'' True] False
     = (Inl (Thrown ''create failed''), True) \<and>
   doesTableExists (racing True) MIGRATION_TABLE True = (Inr True, True) \<and>
   ensureMigrationTableExists (racing True) False = (Inr (), True) \<and>
   createTable (racing False) MIGRATION_TABLE [StringColumn ''name'' True] False
     = (Inl (Thrown ''create failed''), False) \<and>
   ensureMigrationTableExists (racing False) False = (Inl (Thrown ''create failed''), False) \<and>
   ensureLockRowExists (racing True) False = (Inr (), True) \<and>
   ensureLockRowExists (racing False) False = (Inl (Thrown ''insert failed''), False) \<and>
   ensureLockRowExists (racing False) True = (Inr (), True)"
proof -
  have e0: "\<And>r. doesTableExists (racing r) MIGRATION_TABLE False = (Inr False, False)"
    and e1: "\<And>r. doesTableExists (racing r) MIGRATION_TABLE True = (Inr True, True)"
    and c: "\<And>r. createTable (racing r) MIGRATION_TABLE [StringColumn ''name'' True] False
               = (Inl (Thrown ''create failed''), r)"
    and l0: "\<And>r. doesLockRowExists (racing r) False = (Inr False, False)"
    and l1: "\<And>r. doesLockRowExists (racing r) True = (Inr True, True)"
    and i: "\<And>r. insertLockRow (racing r) MIGRATION_LOCK_ID False
               = (Inl (Thrown ''insert failed''), r)"
    by (simp_all add: doesTableExists_def doesLockRowExists_def andThen_def racing_def)
  note t = conjunct1[OF bootstrap_race_tolerant, unfolded raceTolerant_def]
  note r = conjunct2[OF conjunct2[OF bootstrap_race_tolerant], unfolded raceTolerant_def]
  have raced: "ensureMigrationTableExists (racing True) False = (Inr (), True)"
    using conjunct1[OF conjunct2[OF conjunct2[OF t[of "racing True"]]]] e0 c e1 by blast
  have failed: "ensureMigrationTableExists (racing False) False
      = (Inl (Thrown ''create failed''), False)"
    using conjunct2[OF conjunct2[OF conjunct2[OF t[of "racing False"]]]] e0 c by blast
  have row_raced: "ensureLockRowExists (racing True) False = (Inr (), True)"
    using conjunct1[OF conjunct2[OF conjunct2[OF r[of "racing True"]]]] l0 i l1 by blast
  have row_failed: "ensureLockRowExists (racing False) False
      = (Inl (Thrown ''insert failed''), False)"
    using conjunct2[OF conjunct2[OF conjunct2[OF r[of "racing False"]]]] l0 i by blast
  have row_there: "ensureLockRowExists (racing False) True = (Inr (), True)"
    using conjunct1[OF r[of "racing False"]] l1 by blast
  show ?thesis using e0 e1 c raced failed row_raced row_failed row_there by simp
qed

section \<open>The transaction\<close>

lemma tables_differ: "MIGRATION_TABLE \<noteq> MIGRATION_LOCK_TABLE"
  by (simp add: MIGRATION_TABLE_def MIGRATION_LOCK_TABLE_def)

lemma ref_table_step:
  "ensureMigrationTableExists ref w
     = (Inr (), w\<lparr>migration_table := Some (ledgerOf w)\<rparr>)"
  by (cases w)
     (simp add: ensureMigrationTableExists_def doesTableExists_def andThen_def ref_fields
        ref_getTableMetadata_def ref_createTable_def ledgerOf_def split: option.splits)

lemma ref_lock_table_step:
  "ensureMigrationLockTableExists ref w
     = (Inr (), w\<lparr>lock_table := Some (lockRowsOf w)\<rparr>)"
  by (cases w)
     (simp add: ensureMigrationLockTableExists_def doesTableExists_def andThen_def ref_fields
        ref_getTableMetadata_def ref_createTable_def lockRowsOf_def tables_differ
        tables_differ[symmetric] split: option.splits)

lemma find_id: "(find (\<lambda>row. fst row = i) rows = None) = (i \<notin> fst ` set rows)"
  by (force simp: find_None_iff image_iff)

lemma find_id_Some:
  "(\<exists>a b. find (\<lambda>row. fst row = i) rows = Some (a, b)) = (i \<in> fst ` set rows)"
  "(\<forall>a b. find (\<lambda>row. fst row = i) rows \<noteq> Some (a, b)) = (i \<notin> fst ` set rows)"
  using find_id[of i rows] by (cases "find (\<lambda>row. fst row = i) rows"; force)+

lemma ref_lock_row_step:
  "lock_table w = Some rows \<Longrightarrow>
   ensureLockRowExists ref w
     = (Inr (), w\<lparr>lock_table := Some (if MIGRATION_LOCK_ID \<in> fst ` set rows then rows
                                        else rows @ [(MIGRATION_LOCK_ID, 0)])\<rparr>)"
  by (cases w)
     (simp add: ensureLockRowExists_def doesLockRowExists_def andThen_def ref_fields
        ref_selectLockRow_def ref_insertLockRow_def find_id_Some)

lemma ref_bootstrap:
  "ensureMigrationTablesExists ref w = (Inr (), bootstrapped w)"
proof -
  let ?w1 = "w\<lparr>migration_table := Some (ledgerOf w)\<rparr>"
  let ?w2 = "?w1\<lparr>lock_table := Some (lockRowsOf ?w1)\<rparr>"
  have l: "lock_table ?w2 = Some (lockRowsOf w)" by (simp add: lockRowsOf_def)
  show ?thesis
    unfolding ensureMigrationTablesExists_def
    by (simp add: andThen_def ref_table_step ref_lock_table_step ref_lock_row_step[OF l]
          bootstrapped_def)
qed

lemma bootstrapped_fields:
  "migration_table (bootstrapped w) = Some (ledgerOf w)"
  "schema (bootstrapped w) = schema w"
  by (simp_all add: bootstrapped_def)

lemma bootstrapped_idem: "bootstrapped (bootstrapped w) = bootstrapped w"
  by (cases w) (simp add: bootstrapped_def ledgerOf_def lockRowsOf_def)

lemma filter_lock_row:
  "filter (lockRowMatches (Some 0) i) rows
     = filter (\<lambda>row. snd row = 0) (filter (\<lambda>row. fst row = i) rows)"
  by (induction rows) (auto simp: lockRowMatches_def)

lemma bootstrapped_lock:
  assumes "lockFree w"
  shows "\<exists>rows. lock_table (bootstrapped w) = Some rows \<and>
           filter (\<lambda>row. fst row = MIGRATION_LOCK_ID) rows = [(MIGRATION_LOCK_ID, 0)]"
proof (cases "MIGRATION_LOCK_ID \<in> fst ` set (lockRowsOf w)")
  case True
  then have "filter (\<lambda>row. fst row = MIGRATION_LOCK_ID) (lockRowsOf w) \<noteq> []"
    by (force simp: filter_empty_conv)
  with assms have "filter (\<lambda>row. fst row = MIGRATION_LOCK_ID) (lockRowsOf w)
      = [(MIGRATION_LOCK_ID, 0)]" by (simp add: lockFree_def)
  with True show ?thesis by (simp add: bootstrapped_def)
next
  case False
  then have "filter (\<lambda>row. fst row = MIGRATION_LOCK_ID) (lockRowsOf w) = []"
    by (force simp: filter_empty_conv)
  with False show ?thesis by (simp add: bootstrapped_def)
qed

lemma ref_acquire:
  fixes w :: "'u database"
  assumes "lockFree w"
  shows "acquireLock ref (bootstrapped w)
           = Some (Inr () :: 'x error + unit, snd (tryAcquireLock ref (bootstrapped w) :: ('x error + bool) \<times> 'u database))"
    and "migration_table (snd (tryAcquireLock ref (bootstrapped w) :: ('x error + bool) \<times> 'u database))
           = Some (ledgerOf w)"
proof -
  obtain rows where rows: "lock_table (bootstrapped w) = Some rows"
    "filter (\<lambda>row. fst row = MIGRATION_LOCK_ID) rows = [(MIGRATION_LOCK_ID, 0)]"
    using bootstrapped_lock[OF assms] by blast
  have n: "length (filter (lockRowMatches (Some 0) MIGRATION_LOCK_ID) rows) = 1"
    by (simp add: filter_lock_row rows(2))
  have t: "fst (tryAcquireLock ref (bootstrapped w) :: ('x error + bool) \<times> 'u database) = Inr True"
    using n by (simp add: tryAcquireLock_def andThen_def ref_fields ref_updateLock_def rows(1))
  obtain a w1 where aw: "(tryAcquireLock ref (bootstrapped w) :: ('x error + bool) \<times> 'u database) = (a, w1)"
    by (cases "tryAcquireLock ref (bootstrapped w) :: ('x error + bool) \<times> 'u database")
  with t have a: "a = Inr True" by simp
  show "acquireLock ref (bootstrapped w)
           = Some (Inr () :: 'x error + unit, snd (tryAcquireLock ref (bootstrapped w) :: ('x error + bool) \<times> 'u database))"
    by (rule acquireLock_done) (simp add: aw a)
  show "migration_table (snd (tryAcquireLock ref (bootstrapped w) :: ('x error + bool) \<times> 'u database))
           = Some (ledgerOf w)"
    by (simp add: tryAcquireLock_def andThen_def ref_fields ref_updateLock_def rows(1)
          bootstrapped_fields)
qed

text \<open>
  Claim C2. On the reference layer, with a free lock and a ledger that satisfies I1:
  if, in the batch of the pending migrations, the migrations before some migration
  are applied and the call of the forward operation of that migration fails, then
  \<open>doMigrateToLatest\<close> fails with the error of that call and leaves the database
  as the bootstrap left it. The bootstrap keeps the ledger and the schema, and is
  idempotent: none of the pending migrations is in the ledger.
\<close>

theorem failed_run_rolls_back:
  fixes ms :: "('u database, 'x) migrations" and w :: "'u database"
  assumes lf: "lockFree w"
    and i1: "I1 (orderedNames ms) (ledgerOf w)"
    and batch: "pendingMigrations ms (ledgerOf w) = pre @ m # post"
    and pre: "runEach ref (map (apsnd spread) pre)
                (snd (tryAcquireLock ref (bootstrapped w) :: ('x error + bool) \<times> 'u database))
                = (Inr (), t)"
    and fail: "call (up (spread (snd m))) t = (Inl e, t')"
  shows "ensureMigrationTablesExists ref w = (Inr () :: 'x error + unit, bootstrapped w) \<and>
         doMigrateToLatest ref ms w = Some (Inl e, bootstrapped w) \<and>
         migration_table (bootstrapped w) = Some (ledgerOf w) \<and>
         schema (bootstrapped w) = schema w \<and>
         bootstrapped (bootstrapped w) = bootstrapped w"
proof -
  let ?b = "bootstrapped w"
  let ?t1 = "snd (tryAcquireLock ref ?b :: ('x error + bool) \<times> 'u database)"
  have boot: "ensureMigrationTablesExists ref w = (Inr () :: 'x error + unit, ?b)"
    by (rule ref_bootstrap)
  have acq: "acquireLock ref ?b = Some (Inr () :: 'x error + unit, ?t1)"
    and led: "migration_table ?t1 = Some (ledgerOf w)"
    using ref_acquire[OF lf] by blast+
  have sel: "selectExecuted ref ?t1 = (Inr (sort (ledgerOf w)) :: 'x error + name list, ?t1)"
    using led by (simp add: ref_fields ref_selectExecuted_def)
  have "runNewMigrations ref ms ?t1
      = runEach ref (map (apsnd spread) (pendingMigrations ms (ledgerOf w))) ?t1"
    using i1 sel by (rule run_pure)
  also have "\<dots> = runEach ref (map (apsnd spread) pre @ apsnd spread m # map (apsnd spread) post) ?t1"
    unfolding batch by simp
  also have "\<dots> = (Inl e, t')"
    unfolding runEach_append pre by (simp add: fail)
  finally have run: "runNewMigrations ref ms ?t1 = (Inl e, t')" .
  have "doMigrateToLatest ref ms w = Some (Inl e, ?b)"
    unfolding doMigrateToLatest_def boot
    by (simp add: ref_fields ref_transaction_def acq andThen_def run)
  then show ?thesis
    using boot by (simp add: bootstrapped_fields bootstrapped_idem)
qed

text \<open>
  \<open>002_users\<close> is applied, \<open>003_posts\<close> fails after it has created its table:
  the database is as it was before the call.
\<close>

theorem failed_run_rolls_back_witness:
  "lockFree (exampleDb [''001_init''] [''init'']) \<and>
   I1 (orderedNames brokenMigrations) [''001_init''] \<and>
   pendingMigrations brokenMigrations [''001_init'']
     = [(''002_users'', createsTable ''users'')]
       @ (''003_posts'', failsAfterCreating ''posts'') # [] \<and>
   call (up (spread (failsAfterCreating ''posts'')))
      \<lparr>migration_table = Some [''001_init'', ''002_users''],
       lock_table = Some [(MIGRATION_LOCK_ID, 1)],
       schema = [''init'', ''users'']\<rparr>
     = (Inl (Thrown ()),
        \<lparr>migration_table = Some [''001_init'', ''002_users''],
         lock_table = Some [(MIGRATION_LOCK_ID, 1)],
         schema = [''init'', ''users'', ''posts'']\<rparr>) \<and>
   doMigrateToLatest ref brokenMigrations (exampleDb [''001_init''] [''init''])
     = Some (Inl (Thrown ()), exampleDb [''001_init''] [''init''])"
proof -
  let ?w = "exampleDb [''001_init''] [''init'']"
  let ?pre = "[(''002_users'', createsTable ''users'')]"
  let ?m = "(''003_posts'', failsAfterCreating ''posts'')"
  let ?t = "\<lparr>migration_table = Some [''001_init'', ''002_users''],
       lock_table = Some [(MIGRATION_LOCK_ID, 1)],
       schema = [''init'', ''users'']\<rparr>"
  let ?t' = "\<lparr>migration_table = Some [''001_init'', ''002_users''],
         lock_table = Some [(MIGRATION_LOCK_ID, 1)],
         schema = [''init'', ''users'', ''posts'']\<rparr>"
  have lf: "lockFree ?w" by (simp add: lockFree_def lockRowsOf_def exampleDb_def)
  have lo: "ledgerOf ?w = [''001_init'']" by (simp add: ledgerOf_def exampleDb_def)
  have i: "I1 (orderedNames brokenMigrations) [''001_init'']"
    by (simp add: spec_defs brokenMigrations_def del: fmap_of_list_simps)
  have p: "pendingMigrations brokenMigrations [''001_init''] = ?pre @ ?m # []"
    by (simp add: spec_defs brokenMigrations_def del: fmap_of_list_simps)
  have b: "bootstrapped ?w = ?w"
    by (simp add: bootstrapped_def ledgerOf_def lockRowsOf_def exampleDb_def)
  have r: "runEach ref (map (apsnd spread) ?pre) (snd (tryAcquireLock ref (bootstrapped ?w)
               :: (unit error + bool) \<times> string list database)) = (Inr (), ?t)"
    unfolding b
    by (simp add: tryAcquireLock_def andThen_def ref_fields ref_updateLock_def
          ref_insertExecuted_def lockRowMatches_def exampleDb_def createsTable_def
          spread_def call_def)
  have f: "call (up (spread (snd ?m))) ?t = (Inl (Thrown ()), ?t')"
    by (simp add: failsAfterCreating_def spread_def call_def)
  note c = failed_run_rolls_back[of ?w brokenMigrations ?pre ?m "[]" ?t "Thrown ()" ?t', unfolded lo, OF lf i p r f]
  have "doMigrateToLatest ref brokenMigrations ?w = Some (Inl (Thrown ()), ?w)"
    using conjunct1[OF conjunct2[OF c]] unfolding b .
  with lf i p f show ?thesis by simp
qed

section \<open>The loader\<close>

lemma readEach_Cons:
  "readEach host folder (fl # files) acc =
     (if isMigrationFile fl then
        (case importModule host (join host folder fl) of
           Inl e \<Rightarrow> Inl e
         | Inr migration \<Rightarrow>
            (if isMigration migration
             then readEach host folder files (assign (migrationName fl) migration acc)
             else readEach host folder files acc))
      else readEach host folder files acc)"
  by (simp add: isMigrationFile_def endsWith_def split: sum.splits)



text \<open>
  A file that is to be loaded and whose module fails to load ends the call with the
  error of the load, whatever files come after it.
\<close>

lemma readEach_load_failure:
  assumes "\<forall>f\<in>set before. isMigrationFile f \<longrightarrow>
             (\<exists>m. importModule host (join host folder f) = Inr m)"
    and "isMigrationFile fl" and "importModule host (join host folder fl) = Inl e"
  shows "readEach host folder (before @ fl # after) acc = Inl e"
  using assms(1)
proof (induction before arbitrary: acc)
  case Nil
  show ?case using assms(2,3) by (simp add: readEach_Cons del: readEach.simps)
next
  case (Cons f before)
  then have rest: "\<And>acc. readEach host folder (before @ fl # after) acc = Inl e" by simp
  show ?case
  proof (cases "isMigrationFile f")
    case True
    then obtain m where "importModule host (join host folder f) = Inr m"
      using Cons.prems by auto
    then show ?thesis using True rest
      by (simp add: readEach_Cons del: readEach.simps)
  next
    case False
    then show ?thesis using rest by (simp add: readEach_Cons del: readEach.simps)
  qed
qed








end
